theory Spec2Isabelle
  imports Complex_Main "HOL-Library.AList" "HOL-Library.Log_Nat" "HOL-Library.Product_Lexorder"
begin

section \<open>Data model (api.ts)\<close>

datatype alert_code = GREEN | YELLOW | ORANGE | RED

record location =
  loc_type :: string
  coordinates :: "rat \<times> rat"
  address :: "string option"

record event =
  event_id :: string
  event_location :: location
  alert_code :: alert_code
  description :: string
  tags :: "string list"
  reporter_id :: string
  image_id :: "string option"
  reported_at :: string

section \<open>Number.prototype.toString on non-negative integers\<close>

definition digit_char :: "nat \<Rightarrow> char" where
  "digit_char d = char_of (48 + d)"

text \<open>The decimal digits of a non-negative integer, computed on \<open>int\<close>.\<close>

function toString_int :: "int \<Rightarrow> string" where
  "toString_int n =
     (if n < 10 then [digit_char (nat n)]
      else toString_int (n div 10) @ [digit_char (nat (n mod 10))])"
  by pat_completeness auto
termination
  by (relation "measure nat") simp_all

declare toString_int.simps [simp del]

definition toString_nat :: "nat \<Rightarrow> string" where
  "toString_nat n = toString_int (int n)"


section \<open>The ECMAScript built-ins the analytics page calls\<close>

subsection \<open>Date\<close>

text \<open>
  A \<open>Date\<close> object is its time value: \<open>Some t\<close> for \<open>t\<close> milliseconds since the epoch,
  \<open>None\<close> for an Invalid Date (time value NaN). Two things belong to the host and are
  parameters: the parser behind \<open>new Date(string)\<close>, and the local time zone adjustment
  \<open>LocalTZA(t, isUTC)\<close> in milliseconds. The calendar functions are those of the language
  specification.
\<close>

record host =
  Date_parse :: "string \<Rightarrow> int option"
  LocalTZA :: "int \<Rightarrow> bool \<Rightarrow> int"

definition msPerDay :: int where
  "msPerDay = 86400000"

definition msPerHour :: int where
  "msPerHour = 3600000"

definition Day :: "int \<Rightarrow> int" where
  "Day t = t div msPerDay"

definition DayFromYear :: "int \<Rightarrow> int" where
  "DayFromYear y = 365 * (y - 1970) + (y - 1969) div 4 - (y - 1901) div 100 + (y - 1601) div 400"

definition DaysInYear :: "int \<Rightarrow> int" where
  "DaysInYear y = (if y mod 4 \<noteq> 0 then 365 else if y mod 100 \<noteq> 0 then 366
                   else if y mod 400 \<noteq> 0 then 365 else 366)"

lemma div_succ:
  fixes a k :: int
  assumes "1 < k"
  shows "(a + 1) div k = a div k + (if (a + 1) mod k = 0 then 1 else 0)"
proof -
  have r: "0 \<le> a mod k" "a mod k < k"
    using assms by simp_all
  have m: "(a + 1) mod k = (a mod k + 1) mod k"
    by (simp add: mod_add_left_eq)
  have d: "(a + 1) div k = a div k + (a mod k + 1) div k"
    using assms by (simp add: div_add1_eq [of a 1 k])
  show ?thesis
  proof (cases "a mod k + 1 = k")
    case True
    then show ?thesis using assms by (simp add: m d)
  next
    case False
    then have "a mod k + 1 < k" using r by simp
    then show ?thesis using r by (simp add: m d)
  qed
qed

lemma mod_shift: "(y - k * c) mod k = y mod k" for y k c :: int
  by algebra



lemma DayFromYear_Suc: "DayFromYear (y + 1) = DayFromYear y + DaysInYear y"
proof -
  have "(y - 1969 + 1) mod 4 = (y - 4 * 492) mod 4" by simp
  then have "(y - 1969 + 1) mod 4 = y mod 4" by (simp only: mod_shift)
  with div_succ [of 4 "y - 1969"]
  have a: "(y + 1 - 1969) div 4 = (y - 1969) div 4 + (if y mod 4 = 0 then 1 else 0)"
    by (simp add: add.commute)
  have "(y - 1901 + 1) mod 100 = (y - 100 * 19) mod 100" by simp
  then have "(y - 1901 + 1) mod 100 = y mod 100" by (simp only: mod_shift)
  with div_succ [of 100 "y - 1901"]
  have b: "(y + 1 - 1901) div 100 = (y - 1901) div 100 + (if y mod 100 = 0 then 1 else 0)"
    by (simp add: add.commute)
  have "(y - 1601 + 1) mod 400 = (y - 400 * 4) mod 400" by simp
  then have "(y - 1601 + 1) mod 400 = y mod 400" by (simp only: mod_shift)
  with div_succ [of 400 "y - 1601"]
  have c: "(y + 1 - 1601) div 400 = (y - 1601) div 400 + (if y mod 400 = 0 then 1 else 0)"
    by (simp add: add.commute)
  have "(4::int) dvd 100" "(100::int) dvd 400"
    by simp_all
  then have d: "y mod 100 = 0 \<Longrightarrow> y mod 4 = 0" "y mod 400 = 0 \<Longrightarrow> y mod 100 = 0"
    by (meson dvd_trans mod_eq_0_iff_dvd)+
  show ?thesis
    unfolding DayFromYear_def DaysInYear_def a b c using d by auto
qed

lemma DaysInYear_pos: "0 < DaysInYear y"
  by (simp add: DaysInYear_def)

text \<open>
  \<open>YearFromTime(t)\<close> is the largest \<open>y\<close> with \<open>TimeFromYear(y) \<le> t\<close>. It is found from
  an estimate, by going down to a year that does not start after the day and then up to
  the last such year.
\<close>

function year_down :: "int \<Rightarrow> int \<Rightarrow> int" where
  "year_down d y = (if d < DayFromYear y then year_down d (y - 1) else y)"
  by pat_completeness auto
termination
proof (relation "measure (\<lambda>(d, y). nat (DayFromYear y - d))")
  show "wf (measure (\<lambda>(d, y). nat (DayFromYear y - d)))"
    by simp
next
  fix d y :: int
  assume "d < DayFromYear y"
  moreover have "DayFromYear (y - 1) < DayFromYear y"
    using DayFromYear_Suc [of "y - 1"] DaysInYear_pos [of "y - 1"] by simp
  ultimately show "((d, y - 1), (d, y)) \<in> measure (\<lambda>(d, y). nat (DayFromYear y - d))"
    by simp
qed

function year_up :: "int \<Rightarrow> int \<Rightarrow> int" where
  "year_up d y = (if DayFromYear (y + 1) \<le> d then year_up d (y + 1) else y)"
  by pat_completeness auto
termination
proof (relation "measure (\<lambda>(d, y). nat (d + 1 - DayFromYear (y + 1)))")
  show "wf (measure (\<lambda>(d, y). nat (d + 1 - DayFromYear (y + 1))))"
    by simp
next
  fix d y :: int
  assume "DayFromYear (y + 1) \<le> d"
  moreover have "DayFromYear (y + 1) < DayFromYear (y + 1 + 1)"
    using DayFromYear_Suc [of "y + 1"] DaysInYear_pos [of "y + 1"] by simp
  ultimately show "((d, y + 1), (d, y)) \<in> measure (\<lambda>(d, y). nat (d + 1 - DayFromYear (y + 1)))"
    by simp
qed

declare year_down.simps [simp del] year_up.simps [simp del]

definition YearFromDay :: "int \<Rightarrow> int" where
  "YearFromDay d = year_up d (year_down d (1970 + d div 365))"

definition YearFromTime :: "int \<Rightarrow> int" where
  "YearFromTime t = YearFromDay (Day t)"

definition InLeapYear :: "int \<Rightarrow> bool" where
  "InLeapYear t = (DaysInYear (YearFromTime t) = 366)"

definition DayWithinYear :: "int \<Rightarrow> int" where
  "DayWithinYear t = Day t - DayFromYear (YearFromTime t)"

definition MonthFromTime :: "int \<Rightarrow> nat" where
  "MonthFromTime t =
     (let d = DayWithinYear t; l = (if InLeapYear t then 1 else 0)
      in if d < 31 then 0
         else if d < 59 + l then 1
         else if d < 90 + l then 2
         else if d < 120 + l then 3
         else if d < 151 + l then 4
         else if d < 181 + l then 5
         else if d < 212 + l then 6
         else if d < 243 + l then 7
         else if d < 273 + l then 8
         else if d < 304 + l then 9
         else if d < 334 + l then 10
         else 11)"

definition DateFromTime :: "int \<Rightarrow> int" where
  "DateFromTime t =
     (let d = DayWithinYear t; l = (if InLeapYear t then 1 else 0); m = MonthFromTime t
      in if m = 0 then d + 1
         else if m = 1 then d - 30
         else if m = 2 then d - 58 - l
         else if m = 3 then d - 89 - l
         else if m = 4 then d - 119 - l
         else if m = 5 then d - 150 - l
         else if m = 6 then d - 180 - l
         else if m = 7 then d - 211 - l
         else if m = 8 then d - 242 - l
         else if m = 9 then d - 272 - l
         else if m = 10 then d - 303 - l
         else d - 333 - l)"

definition WeekDay :: "int \<Rightarrow> nat" where
  "WeekDay t = nat ((Day t + 4) mod 7)"

definition HourFromTime :: "int \<Rightarrow> nat" where
  "HourFromTime t = nat ((t div msPerHour) mod 24)"

definition LocalTime :: "host \<Rightarrow> int \<Rightarrow> int" where
  "LocalTime h t = t + LocalTZA h t True"

definition UTC :: "host \<Rightarrow> int \<Rightarrow> int" where
  "UTC h t = t - LocalTZA h t False"

text \<open>
  \<open>new Date(s)\<close>, which keeps the parsed time value only inside the range of time
  values, and the getters, which return NaN (\<open>None\<close>) on an Invalid Date.
\<close>

definition TimeClip :: "int \<Rightarrow> int option" where
  "TimeClip t = (if \<bar>t\<bar> \<le> 8640000000000000 then Some t else None)"

definition new_Date :: "host \<Rightarrow> string \<Rightarrow> int option" where
  "new_Date h s = (case Date_parse h s of None \<Rightarrow> None | Some t \<Rightarrow> TimeClip t)"

definition getMonth :: "host \<Rightarrow> int option \<Rightarrow> nat option" where
  "getMonth h d = map_option (\<lambda>t. MonthFromTime (LocalTime h t)) d"

definition getDay :: "host \<Rightarrow> int option \<Rightarrow> nat option" where
  "getDay h d = map_option (\<lambda>t. WeekDay (LocalTime h t)) d"

definition getHours :: "host \<Rightarrow> int option \<Rightarrow> nat option" where
  "getHours h d = map_option (\<lambda>t. HourFromTime (LocalTime h t)) d"

text \<open>
  \<open>d.setDate(d.getDate() - n)\<close> on a valid date: the local time moves back \<open>n\<close> whole days
  (\<open>MakeDay(YearFromTime, MonthFromTime, DateFromTime - n)\<close> is \<open>n\<close> days before the day of
  the local time, and the time within the day is kept), and the result is converted back
  with \<open>UTC\<close>. It is applied to clock readings only, which are far inside the range of
  time values, so the final \<open>TimeClip\<close> is left out.
\<close>

definition setDate_back :: "host \<Rightarrow> int \<Rightarrow> int \<Rightarrow> int" where
  "setDate_back h t n = UTC h (LocalTime h t - n * msPerDay)"

text \<open>\<open>a >= b\<close> and \<open>a < b\<close> on two dates compare the time values; with NaN both are false.\<close>

definition date_ge :: "int option \<Rightarrow> int option \<Rightarrow> bool" where
  "date_ge a b = (case (a, b) of (Some x, Some y) \<Rightarrow> y \<le> x | _ \<Rightarrow> False)"

definition date_lt :: "int option \<Rightarrow> int option \<Rightarrow> bool" where
  "date_lt a b = (case (a, b) of (Some x, Some y) \<Rightarrow> x < y | _ \<Rightarrow> False)"

subsection \<open>Strings of numbers\<close>

text \<open>\<open>s.padStart(n, '0')\<close>.\<close>

definition padStart0 :: "nat \<Rightarrow> string \<Rightarrow> string" where
  "padStart0 n s = replicate (n - length s) (CHR ''0'') @ s"

subsection \<open>Numbers\<close>

text \<open>
  A Number is an IEEE 754 binary64 value. A finite value is held as the rational it
  denotes; the two zeros are not told apart (no operation below depends on the sign of a
  zero). Every arithmetic operation computes the exact result and rounds it with \<open>fl\<close>:
  to the nearest value with a 53-bit significand, ties to even, with gradual underflow
  below \<open>2^-1022\<close> and overflow to infinity from \<open>2^1024\<close> (\<open>overflow_threshold\<close>, with its
  decimal numeral for evaluation).
\<close>

datatype double = Fin rat | PInf | NInf | NaN

definition pow2 :: "int \<Rightarrow> rat" where
  "pow2 e = (if 0 \<le> e then 2 ^ nat e else 1 / 2 ^ nat (- e))"

text \<open>\<open>ilog2 x\<close> is the exponent \<open>k\<close> with \<open>2^k \<le> x < 2^(k+1)\<close>, for \<open>x > 0\<close>.\<close>

definition ilog2 :: "rat \<Rightarrow> int" where
  "ilog2 x =
     (let (a, b) = quotient_of x;
          k = bitlen a - bitlen b
      in if pow2 k \<le> x then k else k - 1)"

definition round_even :: "rat \<Rightarrow> int" where
  "round_even y =
     (let f = \<lfloor>y\<rfloor>; d = y - of_int f
      in if d < 1 / 2 then f else if 1 / 2 < d then f + 1 else if even f then f else f + 1)"

definition overflow_threshold :: rat where
  "overflow_threshold = 2 ^ 1024"

lemma overflow_threshold_numeral [code]:
  "overflow_threshold = 179769313486231590772930519078902473361797697894230657273430081157732675805500963132708477322407536021120113879871393357658789768814416622492847430639474124377767893424865485276302219601246094119453082952085005768838150682342462881473913110540827237163350510684586298239947245938479716304835356329624224137216"
  by (simp add: overflow_threshold_def)

definition fl :: "rat \<Rightarrow> double" where
  "fl x =
     (if x = 0 then Fin 0
      else let e = max (ilog2 \<bar>x\<bar> - 52) (- 1074);
               y = of_int (round_even (\<bar>x\<bar> / pow2 e)) * pow2 e
           in if overflow_threshold \<le> y then (if 0 < x then PInf else NInf)
              else Fin (if 0 < x then y else - y))"

fun fdiv :: "double \<Rightarrow> double \<Rightarrow> double" where
  "fdiv NaN _ = NaN"
| "fdiv _ NaN = NaN"
| "fdiv (Fin x) (Fin y) =
     (if y = 0 then (if x = 0 then NaN else if 0 < x then PInf else NInf) else fl (x / y))"
| "fdiv (Fin x) _ = Fin 0"
| "fdiv PInf (Fin y) = (if 0 \<le> y then PInf else NInf)"
| "fdiv NInf (Fin y) = (if 0 \<le> y then NInf else PInf)"
| "fdiv _ _ = NaN"

fun fmul :: "double \<Rightarrow> double \<Rightarrow> double" where
  "fmul NaN _ = NaN"
| "fmul _ NaN = NaN"
| "fmul (Fin x) (Fin y) = fl (x * y)"
| "fmul (Fin x) PInf = (if x = 0 then NaN else if 0 < x then PInf else NInf)"
| "fmul (Fin x) NInf = (if x = 0 then NaN else if 0 < x then NInf else PInf)"
| "fmul PInf (Fin y) = (if y = 0 then NaN else if 0 < y then PInf else NInf)"
| "fmul NInf (Fin y) = (if y = 0 then NaN else if 0 < y then NInf else PInf)"
| "fmul PInf PInf = PInf"
| "fmul NInf NInf = PInf"
| "fmul _ _ = NInf"

fun fsub :: "double \<Rightarrow> double \<Rightarrow> double" where
  "fsub NaN _ = NaN"
| "fsub _ NaN = NaN"
| "fsub (Fin x) (Fin y) = fl (x - y)"
| "fsub PInf PInf = NaN"
| "fsub NInf NInf = NaN"
| "fsub PInf _ = PInf"
| "fsub NInf _ = NInf"
| "fsub _ PInf = NInf"
| "fsub _ NInf = PInf"

text \<open>
  \<open>Math.ceil\<close>, and \<open>Math.min\<close> / \<open>Math.max\<close> over their arguments: NaN if any argument is
  NaN, otherwise the least / greatest argument (\<open>+Infinity\<close> / \<open>-Infinity\<close> for no
  arguments).
\<close>

fun Math_ceil :: "double \<Rightarrow> double" where
  "Math_ceil (Fin x) = Fin (of_int \<lceil>x\<rceil>)"
| "Math_ceil d = d"

fun dmin :: "double \<Rightarrow> double \<Rightarrow> double" where
  "dmin NaN _ = NaN"
| "dmin _ NaN = NaN"
| "dmin NInf _ = NInf"
| "dmin _ NInf = NInf"
| "dmin PInf y = y"
| "dmin x PInf = x"
| "dmin (Fin x) (Fin y) = Fin (min x y)"

fun dmax :: "double \<Rightarrow> double \<Rightarrow> double" where
  "dmax NaN _ = NaN"
| "dmax _ NaN = NaN"
| "dmax PInf _ = PInf"
| "dmax _ PInf = PInf"
| "dmax NInf y = y"
| "dmax x NInf = x"
| "dmax (Fin x) (Fin y) = Fin (max x y)"

definition Math_min :: "double list \<Rightarrow> double" where
  "Math_min xs = fold dmin xs PInf"

definition Math_max :: "double list \<Rightarrow> double" where
  "Math_max xs = fold dmax xs NInf"

text \<open>The number a date's \<open>getTime()\<close> returns.\<close>

definition getTime :: "int option \<Rightarrow> double" where
  "getTime d = (case d of None \<Rightarrow> NaN | Some t \<Rightarrow> Fin (of_int t))"

text \<open>
  \<open>x.toFixed(1)\<close> returns a string. The model keeps what the string is made of:
  \<open>Digits1 neg n\<close> is the sign (if \<open>neg\<close>) followed by the decimal digits of \<open>n\<close> with a
  point before the last digit, where \<open>n\<close> is the integer nearest to \<open>10 |x|\<close> (the larger
  one on a tie); \<open>NumberString x\<close> is \<open>ToString(x)\<close>, returned for NaN, the infinities and
  from \<open>10^21\<close>. \<open>numstr_text\<close> spells out the first kind.
\<close>

datatype numstr = Digits1 bool nat | NumberString double

fun toFixed1 :: "double \<Rightarrow> numstr" where
  "toFixed1 (Fin x) =
     (if 10 ^ 21 \<le> \<bar>x\<bar> then NumberString (Fin x)
      else Digits1 (x < 0) (nat (round (10 * \<bar>x\<bar>))))"
| "toFixed1 d = NumberString d"

definition numstr_text :: "bool \<Rightarrow> nat \<Rightarrow> string" where
  "numstr_text neg n =
     (if neg then ''-'' else []) @ toString_nat (n div 10) @ ''.'' @ toString_nat (n mod 10)"

subsection \<open>Plain objects used as counters\<close>

text \<open>
  The values found in the counter objects, or read through them from \<open>Object.prototype\<close>:
  \<open>undefined\<close>, a count, a string, a built-in function (by name), and the prototype object
  itself (what the inherited \<open>__proto__\<close> getter returns).
\<close>

datatype jsval = Undefined | Num nat | Str string | NativeFn string | ObjectPrototype

text \<open>
  An object created by \<open>{}\<close> or an object literal: its own properties in creation order.
\<close>

type_synonym object = "(string \<times> jsval) list"

definition proto_get :: "string \<Rightarrow> jsval" where
  "proto_get k =
     (if k = ''__proto__'' then ObjectPrototype
      else if k = ''constructor'' then NativeFn ''Object''
      else if k \<in> set [''hasOwnProperty'', ''isPrototypeOf'', ''propertyIsEnumerable'',
                        ''toLocaleString'', ''toString'', ''valueOf'', ''__defineGetter__'',
                        ''__defineSetter__'', ''__lookupGetter__'', ''__lookupSetter__'']
        then NativeFn k
      else Undefined)"

text \<open>\<open>obj[k]\<close>: the own property, else the property inherited from \<open>Object.prototype\<close>.\<close>

definition obj_get :: "object \<Rightarrow> string \<Rightarrow> jsval" where
  "obj_get obj k = (case map_of obj k of Some v \<Rightarrow> v | None \<Rightarrow> proto_get k)"

text \<open>
  \<open>obj[k] = v\<close> for a number or a string \<open>v\<close>: an own property is overwritten in place, a
  new one is appended; the key \<open>__proto__\<close> reaches the inherited setter, which ignores a
  value that is neither an object nor null.
\<close>

definition obj_set :: "object \<Rightarrow> string \<Rightarrow> jsval \<Rightarrow> object" where
  "obj_set obj k v = (if k = ''__proto__'' then obj else AList.update k v obj)"

text \<open>
  \<open>(v || 0) + 1\<close>. A falsy \<open>v\<close> gives \<open>1\<close>; a count gives the next count; a string, a
  function or an object is converted to a string and \<open>"1"\<close> is appended. The text of a
  built-in function is the one V8, SpiderMonkey and JavaScriptCore print.
\<close>

fun or0_plus1 :: "jsval \<Rightarrow> jsval" where
  "or0_plus1 Undefined = Num 1"
| "or0_plus1 (Num n) = Num (n + 1)"
| "or0_plus1 (Str s) = (if s = [] then Num 1 else Str (s @ ''1''))"
| "or0_plus1 (NativeFn f) = Str (''function '' @ f @ ''() { [native code] }'' @ ''1'')"
| "or0_plus1 ObjectPrototype = Str (''[object Object]'' @ ''1'')"

text \<open>The statement \<open>obj[k] = (obj[k] || 0) + 1\<close>.\<close>

definition count_key :: "string \<Rightarrow> object \<Rightarrow> object" where
  "count_key k obj = obj_set obj k (or0_plus1 (obj_get obj k))"

text \<open>
  \<open>Object.entries(obj)\<close>: the keys that are array indices (canonical decimal numerals
  below \<open>2^32 - 1\<close>) come first in ascending numeric order, then the other keys in creation
  order.
\<close>

definition digit_val :: "char \<Rightarrow> nat" where
  "digit_val c = of_char c - 48"

definition is_digit :: "char \<Rightarrow> bool" where
  "is_digit c = (48 \<le> (of_char c :: nat) \<and> (of_char c :: nat) \<le> 57)"

definition numeral_val :: "string \<Rightarrow> nat" where
  "numeral_val s = foldl (\<lambda>a c. 10 * a + digit_val c) 0 s"

definition is_array_index :: "string \<Rightarrow> bool" where
  "is_array_index s =
     (s \<noteq> [] \<and> list_all is_digit s \<and> (s = ''0'' \<or> hd s \<noteq> CHR ''0'')
      \<and> length s \<le> 10 \<and> numeral_val s < 2 ^ 32 - 1)"

definition Object_entries :: "object \<Rightarrow> (string \<times> jsval) list" where
  "Object_entries obj =
     sort_key (\<lambda>p. numeral_val (fst p)) (filter (\<lambda>p. is_array_index (fst p)) obj)
       @ filter (\<lambda>p. \<not> is_array_index (fst p)) obj"

text \<open>
  \<open>xs.sort(cmp)\<close>: a stable sort; \<open>a\<close> goes before \<open>b\<close> when \<open>cmp(a, b) < 0\<close> and keeps its
  place relative to \<open>b\<close> when \<open>cmp(a, b) = 0\<close>. (When \<open>cmp\<close> is not a consistent comparator
  the language leaves the order to the implementation; this is then one such order.)
\<close>

fun insort_cmp :: "('a \<Rightarrow> 'a \<Rightarrow> int) \<Rightarrow> 'a \<Rightarrow> 'a list \<Rightarrow> 'a list" where
  "insort_cmp cmp x [] = [x]"
| "insort_cmp cmp x (y # ys) = (if cmp x y \<le> 0 then x # y # ys else y # insort_cmp cmp x ys)"

definition sort_cmp :: "('a \<Rightarrow> 'a \<Rightarrow> int) \<Rightarrow> 'a list \<Rightarrow> 'a list" where
  "sort_cmp cmp xs = foldr (insort_cmp cmp) xs []"

text \<open>
  \<open>x - y\<close> as a sort comparator on two counter values. Counts are subtracted exactly; a
  value that is not a number converts to NaN here (every string the counters store starts
  with \<open>function\<close> or \<open>[object\<close>), the difference is NaN, and \<open>sort\<close> reads NaN as \<open>+0\<close>.
\<close>

fun num_diff :: "jsval \<Rightarrow> jsval \<Rightarrow> int" where
  "num_diff (Num a) (Num b) = int a - int b"
| "num_diff _ _ = 0"

text \<open>\<open>ToNumber\<close> on a counter value, for arithmetic.\<close>

fun ToNumber :: "jsval \<Rightarrow> double" where
  "ToNumber (Num n) = Fin (of_nat n)"
| "ToNumber _ = NaN"

section \<open>Event Fetcher (api.ts, eventsApi.getAllForAnalytics)\<close>







section \<open>Analytics page state (AnalyticsPage.tsx, loadEvents)\<close>



section \<open>Aggregators (AnalyticsPage.tsx)\<close>

text \<open>
  The rows the aggregators return are records with the fields of the source; the field
  the source calls \<open>count\<close> in each of them carries the name of its row here, and \<open>value\<close>
  is \<open>val\<close>.
\<close>

record month_row =
  month :: string
  month_count :: jsval

record alert_row =
  name :: string
  val :: jsval
  percentage :: numstr
  fill :: jsval

record day_row =
  day :: string
  day_count :: nat

record hour_row =
  hour :: string
  hour_count :: nat

record tag_row =
  tag :: string
  tag_count :: jsval

record trend_row =
  date :: string
  date_count :: jsval

subsection \<open>processEventsByMonth\<close>

definition monthNames :: "string list" where
  "monthNames = [''Jan'', ''Feb'', ''Mar'', ''Apr'', ''May'', ''Jun'',
                 ''Jul'', ''Aug'', ''Sep'', ''Oct'', ''Nov'', ''Dec'']"

text \<open>
  \<open>monthNames[date.getMonth()]\<close> used as a property key: reading at NaN (or outside the
  array) gives \<open>undefined\<close>, which as a key is the string \<open>"undefined"\<close>.
\<close>

definition month_key :: "host \<Rightarrow> event \<Rightarrow> string" where
  "month_key h e =
     (case getMonth h (new_Date h (reported_at e)) of
        None \<Rightarrow> ''undefined''
      | Some m \<Rightarrow> if m < length monthNames then monthNames ! m else ''undefined'')"

definition processEventsByMonth :: "host \<Rightarrow> event list \<Rightarrow> month_row list" where
  "processEventsByMonth h evts =
     (let monthCounts0 = fold (\<lambda>m obj. obj_set obj m (Num 0)) monthNames [];
          monthCounts = fold (\<lambda>e. count_key (month_key h e)) evts monthCounts0
      in map (\<lambda>m. \<lparr>month = m, month_count = obj_get monthCounts m\<rparr>) monthNames)"

subsection \<open>processEventsByAlertCode\<close>

fun alert_name :: "alert_code \<Rightarrow> string" where
  "alert_name GREEN = ''GREEN''"
| "alert_name YELLOW = ''YELLOW''"
| "alert_name ORANGE = ''ORANGE''"
| "alert_name RED = ''RED''"

definition ALERT_COLORS :: object where
  "ALERT_COLORS = [(''GREEN'', Str ''#22c55e''), (''YELLOW'', Str ''#eab308''),
                   (''ORANGE'', Str ''#f97316''), (''RED'', Str ''#ef4444'')]"

definition processEventsByAlertCode :: "event list \<Rightarrow> alert_row list" where
  "processEventsByAlertCode evts =
     (let alertCounts0 = [(''GREEN'', Num 0), (''YELLOW'', Num 0), (''ORANGE'', Num 0), (''RED'', Num 0)];
          alertCounts = fold (\<lambda>e. count_key (alert_name (alert_code e))) evts alertCounts0;
          total = (if length evts = 0 then 1 else length evts)
      in map (\<lambda>(code, count).
                \<lparr>name = code, val = count,
                 percentage = toFixed1 (fmul (fdiv (ToNumber count) (Fin (of_nat total))) (Fin 100)),
                 fill = obj_get ALERT_COLORS code\<rparr>)
           (Object_entries alertCounts))"

subsection \<open>processEventsByDayOfWeek and processEventsByHour\<close>

text \<open>
  \<open>counts[i]++\<close> on an array of numbers. With \<open>i\<close> NaN the statement stores NaN under the
  key \<open>"NaN"\<close>, which is not an element: the elements are unchanged. The getters return
  either NaN or an index inside the array (\<open>WeekDay < 7\<close>, \<open>HourFromTime < 24\<close>).
\<close>

definition incr_at :: "nat option \<Rightarrow> nat list \<Rightarrow> nat list" where
  "incr_at i cs = (case i of None \<Rightarrow> cs | Some j \<Rightarrow> cs[j := cs ! j + 1])"

definition dayNames :: "string list" where
  "dayNames = [''Sunday'', ''Monday'', ''Tuesday'', ''Wednesday'', ''Thursday'', ''Friday'',
               ''Saturday'']"

definition processEventsByDayOfWeek :: "host \<Rightarrow> event list \<Rightarrow> day_row list" where
  "processEventsByDayOfWeek h evts =
     (let dayCounts = fold (\<lambda>e. incr_at (getDay h (new_Date h (reported_at e)))) evts
                        [0, 0, 0, 0, 0, 0, 0]
      in map (\<lambda>(d, idx). \<lparr>day = d, day_count = dayCounts ! idx\<rparr>)
           (zip dayNames [0..<length dayNames]))"

definition processEventsByHour :: "host \<Rightarrow> event list \<Rightarrow> hour_row list" where
  "processEventsByHour h evts =
     (let hourCounts = fold (\<lambda>e. incr_at (getHours h (new_Date h (reported_at e)))) evts
                         (replicate 24 0)
      in map (\<lambda>(count, hr). \<lparr>hour = padStart0 2 (toString_nat hr) @ '':00'', hour_count = count\<rparr>)
           (zip hourCounts [0..<length hourCounts]))"

subsection \<open>processTopTags\<close>

definition processTopTags :: "event list \<Rightarrow> tag_row list" where
  "processTopTags evts =
     (let tagCounts = fold (\<lambda>e obj. fold count_key (tags e) obj) evts []
      in map (\<lambda>(t, count). \<lparr>tag = t, tag_count = count\<rparr>)
           (take 10 (sort_cmp (\<lambda>a b. num_diff (snd b) (snd a)) (Object_entries tagCounts))))"

subsection \<open>processEventsTrend\<close>

text \<open>
  \<open>toISOString\<close> throws a RangeError on an Invalid Date. Years outside \<open>0..9999\<close> are
  written with a sign and six digits.
\<close>

datatype js_error = RangeError string

definition pad_num :: "nat \<Rightarrow> int \<Rightarrow> string" where
  "pad_num n x = padStart0 n (toString_int x)"

definition iso_year :: "int \<Rightarrow> string" where
  "iso_year y =
     (if 0 \<le> y \<and> y \<le> 9999 then pad_num 4 y
      else (if y < 0 then ''-'' else ''+'') @ pad_num 6 \<bar>y\<bar>)"

text \<open>
  The date part of \<open>toISOString\<close>, from the year, the month (from \<open>0\<close>) and the day of the
  month in UTC.
\<close>

definition utc_date :: "int \<Rightarrow> int \<times> nat \<times> int" where
  "utc_date t = (YearFromTime t, MonthFromTime t, DateFromTime t)"

fun iso_date :: "int \<times> nat \<times> int \<Rightarrow> string" where
  "iso_date (y, m, d) = iso_year y @ ''-'' @ pad_num 2 (int m + 1) @ ''-'' @ pad_num 2 d"

declare iso_date.simps [simp del]

definition toISOString :: "int option \<Rightarrow> js_error + string" where
  "toISOString d =
     (case d of
        None \<Rightarrow> Inl (RangeError ''Invalid time value'')
      | Some t \<Rightarrow>
          Inr (iso_date (utc_date t) @ ''T'' @ pad_num 2 (int (HourFromTime t)) @ '':''
               @ pad_num 2 ((t div 60000) mod 60) @ '':'' @ pad_num 2 ((t div 1000) mod 60)
               @ ''.'' @ pad_num 3 (t mod 1000) @ ''Z''))"

text \<open>\<open>s.split('T')[0]\<close>: the part of \<open>s\<close> before the first \<open>T\<close>.\<close>

definition split_T_first :: "string \<Rightarrow> string" where
  "split_T_first s = takeWhile (\<lambda>c. c \<noteq> CHR ''T'') s"

text \<open>
  \<open>a.localeCompare(b)\<close> on the keys of \<open>dateGroups\<close>, which are made of digits, \<open>-\<close> and
  \<open>+\<close>. The collation compares such strings character by character, with \<open>-\<close> before
  \<open>+\<close> before the digits in their order. Other characters do not occur in the keys; they
  are ranked after these, by code.
\<close>

definition collation_rank :: "char \<Rightarrow> nat" where
  "collation_rank c =
     (if c = CHR ''-'' then 0 else if c = CHR ''+'' then 1
      else if is_digit c then 2 + digit_val c else 12 + of_char c)"

fun localeCompare :: "string \<Rightarrow> string \<Rightarrow> int" where
  "localeCompare [] [] = 0"
| "localeCompare [] (b # bs) = - 1"
| "localeCompare (a # as) [] = 1"
| "localeCompare (a # as) (b # bs) =
     (if collation_rank a < collation_rank b then - 1
      else if collation_rank b < collation_rank a then 1
      else localeCompare as bs)"

text \<open>
  \<open>d.toLocaleDateString('en-US', {day: '2-digit', month: 'short'})\<close>: the short month name
  and the two-digit day of the date in local time.
\<close>

definition toLocaleDateString_short :: "host \<Rightarrow> int option \<Rightarrow> string" where
  "toLocaleDateString_short h d =
     (case d of
        None \<Rightarrow> ''Invalid Date''
      | Some t \<Rightarrow> monthNames ! MonthFromTime (LocalTime h t) @ '' ''
                   @ pad_num 2 (DateFromTime (LocalTime h t)))"

text \<open>The \<open>forEach\<close> that fills \<open>dateGroups\<close>; it ends at the first event whose date throws.\<close>

fun dateGroups_loop :: "host \<Rightarrow> event list \<Rightarrow> object \<Rightarrow> js_error + object" where
  "dateGroups_loop h [] obj = Inr obj"
| "dateGroups_loop h (e # es) obj =
     (case toISOString (new_Date h (reported_at e)) of
        Inl err \<Rightarrow> Inl err
      | Inr s \<Rightarrow> dateGroups_loop h es (count_key (split_T_first s) obj))"

text \<open>\<open>xs.slice(-30)\<close>.\<close>

definition slice_last :: "nat \<Rightarrow> 'a list \<Rightarrow> 'a list" where
  "slice_last n xs = drop (length xs - n) xs"

text \<open>
  The entries of \<open>dateGroups\<close> after \<open>sort\<close> and \<open>slice(-30)\<close>, and the function itself, which
  replaces each key by its label.
\<close>

definition trend_buckets :: "host \<Rightarrow> event list \<Rightarrow> js_error + (string \<times> jsval) list" where
  "trend_buckets h evts =
     (case dateGroups_loop h evts [] of
        Inl err \<Rightarrow> Inl err
      | Inr dateGroups \<Rightarrow>
          Inr (slice_last 30
                 (sort_cmp (\<lambda>a b. localeCompare (fst a) (fst b)) (Object_entries dateGroups))))"

definition processEventsTrend :: "host \<Rightarrow> event list \<Rightarrow> js_error + trend_row list" where
  "processEventsTrend h evts =
     (case trend_buckets h evts of
        Inl err \<Rightarrow> Inl err
      | Inr bs \<Rightarrow>
          Inr (map (\<lambda>(d, count).
                      \<lparr>date = toLocaleDateString_short h (new_Date h d), date_count = count\<rparr>) bs))"

section \<open>Statistics Calculator and Time-Range Filter (AnalyticsPage.tsx)\<close>

text \<open>
  A field of the statistics is a number in the empty case and the string of \<open>toFixed(1)\<close>
  otherwise.
\<close>

datatype stat = SNum double | SStr numstr

record statistics =
  total :: nat
  avgPerDay :: stat
  trend :: stat
  urgentPercent :: stat

text \<open>
  Each \<open>new Date()\<close> reads the clock. \<open>clock k\<close> is the \<open>k\<close>-th reading made during the
  call: the callback of the first \<open>filter\<close> reads it once for each event, the callback of
  the second twice (\<open>weekAgo\<close>, then \<open>twoWeeksAgo\<close>).
\<close>

text \<open>
  \<open>Math.min(...dates)\<close> passes every element of \<open>dates\<close> as an argument of one call. The
  language sets no bound on the number of arguments, but every engine has one (the room
  left on its stack, or a fixed number) and throws a RangeError when a call is given more.
  \<open>maxArgs\<close> is that bound, a parameter; the message is the one of V8.
\<close>

definition spread_call :: "nat \<Rightarrow> ('a list \<Rightarrow> 'b) \<Rightarrow> 'a list \<Rightarrow> js_error + 'b" where
  "spread_call maxArgs f xs =
     (if maxArgs < length xs then Inl (RangeError ''Maximum call stack size exceeded'')
      else Inr (f xs))"

text \<open>
  The constant \<open>daysDiff\<close> of \<open>calculateStatistics\<close>, computed from \<open>dates\<close>, or the error
  thrown on the way.
\<close>

definition daysDiff :: "host \<Rightarrow> nat \<Rightarrow> event list \<Rightarrow> js_error + double" where
  "daysDiff h maxArgs evts =
     (let dates = map (\<lambda>e. getTime (new_Date h (reported_at e))) evts
      in case spread_call maxArgs Math_min dates of
           Inl err \<Rightarrow> Inl err
         | Inr minDate \<Rightarrow>
             (case spread_call maxArgs Math_max dates of
                Inl err \<Rightarrow> Inl err
              | Inr maxDate \<Rightarrow>
                  Inr (Math_max [Fin 1,
                         Math_ceil (fdiv (fsub maxDate minDate) (Fin (1000 * 60 * 60 * 24)))])))"

definition calculateStatistics ::
  "host \<Rightarrow> nat \<Rightarrow> (nat \<Rightarrow> int) \<Rightarrow> event list \<Rightarrow> js_error + statistics" where
  "calculateStatistics h maxArgs clock evts =
     (if length evts = 0
      then Inr \<lparr>total = 0, avgPerDay = SNum (Fin 0), trend = SNum (Fin 0), urgentPercent = SNum (Fin 0)\<rparr>
      else
        case daysDiff h maxArgs evts of
          Inl err \<Rightarrow> Inl err
        | Inr days \<Rightarrow>
        let n = length evts;
            lastWeek = length (filter
              (\<lambda>(i, e). let d = new_Date h (reported_at e);
                             weekAgo = Some (setDate_back h (clock i) 7)
                         in date_ge d weekAgo)
              (zip [0..<n] evts));
            prevWeek = length (filter
              (\<lambda>(i, e). let d = new_Date h (reported_at e);
                             weekAgo = Some (setDate_back h (clock (n + 2 * i)) 7);
                             twoWeeksAgo = Some (setDate_back h (clock (n + 2 * i + 1)) 14)
                         in date_ge d twoWeeksAgo \<and> date_lt d weekAgo)
              (zip [0..<n] evts));
            trnd = (if 0 < prevWeek
                    then fmul (fdiv (fsub (Fin (of_nat lastWeek)) (Fin (of_nat prevWeek)))
                                 (Fin (of_nat prevWeek))) (Fin 100)
                    else Fin 0);
            urgentCount = length (filter (\<lambda>e. alert_code e = RED \<or> alert_code e = ORANGE) evts)
        in Inr \<lparr>total = n,
                avgPerDay = SStr (toFixed1 (fdiv (Fin (of_nat n)) days)),
                trend = SStr (toFixed1 trnd),
                urgentPercent = SStr (toFixed1 (fmul (fdiv (Fin (of_nat urgentCount)) (Fin (of_nat n))) (Fin 100)))\<rparr>)"

text \<open>
  How far \<open>d.setDate(d.getDate() - n)\<close> lands from \<open>n\<close> times 24 hours before \<open>d\<close>: the
  difference between the zone's offset now and its offset at the local time \<open>n\<close> days back.
\<close>

definition tz_drift :: "host \<Rightarrow> int \<Rightarrow> int \<Rightarrow> int" where
  "tz_drift h now n = LocalTZA h now True - LocalTZA h (LocalTime h now - n * msPerDay) False"

text \<open>A statistic that is NaN, as a number or as the string \<open>"NaN"\<close>.\<close>

definition stat_is_NaN :: "stat \<Rightarrow> bool" where
  "stat_is_NaN s = (s = SNum NaN \<or> s = SStr (NumberString NaN))"

datatype time_range = R7d | R30d | R90d | RAll

fun daysMap :: "time_range \<Rightarrow> int" where
  "daysMap R7d = 7"
| "daysMap R30d = 30"
| "daysMap R90d = 90"
| "daysMap RAll = 0"

text \<open>
  \<open>displayEvents\<close>: \<open>now\<close> is the one clock reading of \<open>new Date()\<close>; with the range \<open>all\<close> the
  clock is not read and \<open>daysMap\<close> is not consulted.
\<close>

definition displayEvents :: "host \<Rightarrow> int \<Rightarrow> time_range \<Rightarrow> event list \<Rightarrow> event list" where
  "displayEvents h now timeRange evts =
     (if timeRange \<noteq> RAll
      then let cutoff = Some (setDate_back h now (daysMap timeRange))
           in filter (\<lambda>e. date_ge (new_Date h (reported_at e)) cutoff) evts
      else evts)"

section \<open>A concrete host and the event set of the spec's scenario\<close>

text \<open>
  A host in a zone two hours ahead of UTC all year, whose parser knows the strings used
  below (a date-time without offset is local time, a date alone is UTC midnight).
\<close>

definition scenario_host :: host where
  "scenario_host =
     \<lparr>Date_parse = (\<lambda>s. if s = ''2024-03-15T10:00'' then Some 1710489600000
                         else if s = ''2024-03-15T14:00'' then Some 1710504000000
                         else if s = ''2024-03-15T00:30'' then Some 1710455400000
                         else if s = ''2024-03-15'' then Some 1710460800000
                         else if s = ''2024-03-07T12:00:00Z'' then Some 1709812800000
                         else if s = ''2024-03-07'' then Some 1709769600000
                         else if s = ''2024-03-08T13:00:00Z'' then Some 1709902800000
                         else if s = ''9999-12-31T12:00:00Z'' then Some 253402257600000
                         else if s = ''+010000-01-01T12:00:00Z'' then Some 253402344000000
                         else if s = ''9999-12-31'' then Some 253402214400000
                         else if s = ''+010000-01-01'' then Some 253402300800000
                         else None),
      LocalTZA = (\<lambda>t isUTC. 7200000)\<rparr>"

text \<open>
  A host in a zone whose clocks go forward one hour at 2024-03-31T01:00:00Z, from two to
  three hours ahead of UTC: local time jumps from 03:00 to 04:00. A local time inside the
  skipped hour is read with the offset before the change, so local times are read with
  three hours from 04:00 on.
\<close>

definition dst_host :: host where
  "dst_host =
     \<lparr>Date_parse = (\<lambda>s. if s = ''2024-03-26T12:30:00Z'' then Some 1711456200000 else None),
      LocalTZA = (\<lambda>t isUTC. if t < (if isUTC then 1711846800000 else 1711857600000)
                            then 7200000 else 10800000)\<rparr>"

definition scenario_event :: "string \<Rightarrow> alert_code \<Rightarrow> string list \<Rightarrow> event" where
  "scenario_event r a ts =
     \<lparr>event_id = [],
      event_location = \<lparr>loc_type = ''Point'', coordinates = (0, 0), address = None\<rparr>,
      alert_code = a, description = [], tags = ts, reporter_id = [], image_id = None,
      reported_at = r\<rparr>"

definition scenario_events :: "event list" where
  "scenario_events =
     [scenario_event ''2024-03-15T10:00'' RED [''fire''],
      scenario_event ''2024-03-15T14:00'' GREEN [''fire'', ''smoke'']]"






section \<open>Theorems: Event Fetcher\<close>












section \<open>Properties of the counter objects\<close>

text \<open>
  \<open>numeric obj\<close>: every own property holds a count. \<open>cnt obj k\<close>: the count under \<open>k\<close>,
  \<open>0\<close> when there is none.
\<close>

definition numeric :: "object \<Rightarrow> bool" where
  "numeric obj = (\<forall>k v. map_of obj k = Some v \<longrightarrow> (\<exists>n. v = Num n))"

definition cnt :: "object \<Rightarrow> string \<Rightarrow> nat" where
  "cnt obj k = (case map_of obj k of Some (Num n) \<Rightarrow> n | _ \<Rightarrow> 0)"

lemma proto_get_proto: "proto_get k = Undefined \<Longrightarrow> k \<noteq> ''__proto__''"
  by (auto simp: proto_get_def)

lemma count_key_map_of:
  assumes "proto_get k = Undefined" and "numeric obj"
  shows "map_of (count_key k obj) = (map_of obj)(k \<mapsto> Num (Suc (cnt obj k)))"
proof (cases "map_of obj k")
  case None
  then show ?thesis
    using assms proto_get_proto [of k]
    by (simp add: count_key_def obj_set_def obj_get_def cnt_def update_conv')
next
  case (Some v)
  then obtain n where "v = Num n"
    using assms(2) by (auto simp: numeric_def)
  then show ?thesis
    using Some assms proto_get_proto [of k]
    by (simp add: count_key_def obj_set_def obj_get_def cnt_def update_conv')
qed

lemma count_key_numeric:
  assumes "proto_get k = Undefined" and "numeric obj"
  shows "numeric (count_key k obj)"
  unfolding numeric_def count_key_map_of [OF assms]
  using assms(2) by (auto simp: numeric_def)

lemma count_key_cnt:
  assumes "proto_get k = Undefined" and "numeric obj"
  shows "cnt (count_key k obj) k' = cnt obj k' + (if k' = k then 1 else 0)"
  unfolding cnt_def count_key_map_of [OF assms] by (simp add: cnt_def)

lemma count_key_keys:
  assumes "proto_get k = Undefined"
  shows "fst ` set (count_key k obj) = insert k (fst ` set obj)"
  using proto_get_proto [OF assms] by (simp add: count_key_def obj_set_def dom_update)

lemma count_key_distinct:
  assumes "distinct (map fst obj)"
  shows "distinct (map fst (count_key k obj))"
  using assms by (simp add: count_key_def obj_set_def distinct_update)

lemma fold_count_key:
  assumes "\<forall>k\<in>set ks. proto_get k = Undefined" and "numeric obj"
  shows "numeric (fold count_key ks obj)"
    and "cnt (fold count_key ks obj) k' = cnt obj k' + count_list ks k'"
    and "fst ` set (fold count_key ks obj) = fst ` set obj \<union> set ks"
  using assms
proof (induction ks arbitrary: obj)
  case Nil
  {
    case 1 then show ?case by simp
  next
    case 2 then show ?case by simp
  next
    case 3 then show ?case by simp
  }
next
  case (Cons k ks)
  {
    case 1
    then show ?case
      using Cons.IH(1) [of "count_key k obj"] by (simp add: count_key_numeric)
  next
    case 2
    then show ?case
      using Cons.IH(2) [of "count_key k obj"] by (simp add: count_key_numeric count_key_cnt)
  next
    case 3
    then show ?case
      using Cons.IH(3) [of "count_key k obj"] by (simp add: count_key_numeric count_key_keys)
  }
qed

lemma fold_count_key_distinct:
  "distinct (map fst obj) \<Longrightarrow> distinct (map fst (fold count_key ks obj))"
  by (induction ks arbitrary: obj) (simp_all add: count_key_distinct)

lemma obj_get_cnt:
  assumes "numeric obj" and "k \<in> fst ` set obj"
  shows "obj_get obj k = Num (cnt obj k)"
proof -
  from assms(2) obtain v where "map_of obj k = Some v"
    by (metis domD dom_map_of_conv_image_fst)
  moreover from this obtain n where "v = Num n"
    using assms(1) by (auto simp: numeric_def)
  ultimately show ?thesis
    by (simp add: obj_get_def cnt_def)
qed


lemma numeric_entries:
  assumes "numeric obj" and "distinct (map fst obj)"
  shows "obj = map (\<lambda>k. (k, Num (cnt obj k))) (map fst obj)"
proof -
  have "p = (fst p, Num (cnt obj (fst p)))" if "p \<in> set obj" for p
  proof -
    from that assms(2) have m: "map_of obj (fst p) = Some (snd p)"
      by (metis map_of_is_SomeI prod.collapse)
    then obtain n where "snd p = Num n"
      using assms(1) by (auto simp: numeric_def)
    with m show ?thesis
      by (simp add: cnt_def prod_eq_iff)
  qed
  then have "map (\<lambda>p. p) obj = map (\<lambda>p. (fst p, Num (cnt obj (fst p)))) obj"
    by (intro map_cong) auto
  then show ?thesis
    by (simp add: comp_def)
qed

lemma count_key_keys_same:
  assumes "k \<in> fst ` set obj" and "proto_get k = Undefined"
  shows "map fst (count_key k obj) = map fst obj"
  using assms proto_get_proto [of k] by (simp add: count_key_def obj_set_def update_keys)

lemma fold_count_key_keys_same:
  assumes "set ks \<subseteq> fst ` set obj" and "\<forall>k\<in>set ks. proto_get k = Undefined"
  shows "map fst (fold count_key ks obj) = map fst obj"
  using assms
proof (induction ks arbitrary: obj)
  case Nil
  then show ?case by simp
next
  case (Cons k ks)
  have "map fst (count_key k obj) = map fst obj"
    using Cons.prems by (simp add: count_key_keys_same)
  moreover from this have "fst ` set (count_key k obj) = fst ` set obj"
    by (metis list.set_map)
  ultimately show ?case
    using Cons.IH [of "count_key k obj"] Cons.prems by simp
qed

lemma map_by_index: "map f xs = map (\<lambda>i. f (xs ! i)) [0..<length xs]"
  by (rule nth_equalityI) simp_all

lemma count_list_map_filter: "count_list (map f xs) y = length (filter (\<lambda>x. f x = y) xs)"
  by (induction xs) auto

lemma sum_buckets:
  assumes "\<forall>x\<in>set xs. \<exists>i<n. f x = Some i"
  shows "(\<Sum>i\<leftarrow>[0..<n]. length (filter (\<lambda>x. f x = Some i) xs)) = length xs"
  using assms
proof (induction xs)
  case Nil
  then show ?case by simp
next
  case (Cons x xs)
  then obtain j where j: "j < n" "f x = Some j"
    by auto
  have "(\<Sum>i\<leftarrow>[0..<n]. length (filter (\<lambda>x. f x = Some i) (x # xs)))
      = (\<Sum>i\<leftarrow>[0..<n]. (if i = j then 1 else 0) + length (filter (\<lambda>x. f x = Some i) xs))"
    using j by (intro arg_cong [where f = sum_list] map_cong) auto
  also have "\<dots> = (\<Sum>i\<leftarrow>[0..<n]. if i = j then 1 else 0)
      + (\<Sum>i\<leftarrow>[0..<n]. length (filter (\<lambda>x. f x = Some i) xs))"
    by (simp add: sum_list_addf)
  also have "(\<Sum>i\<leftarrow>[0..<n]. if i = j then 1 else 0) = (1::nat)"
    using j(1) by (simp add: interv_sum_list_conv_sum_set_nat)
  finally show ?case
    using Cons by simp
qed

section \<open>Properties of the fixed-dimension aggregators\<close>

lemma MonthFromTime_less: "MonthFromTime t < 12"
  by (simp add: MonthFromTime_def Let_def)

lemma WeekDay_less: "WeekDay t < 7"
  by (simp add: WeekDay_def)

lemma HourFromTime_less: "HourFromTime t < 24"
  by (simp add: HourFromTime_def)

lemma monthCounts0:
  "fold (\<lambda>m obj. obj_set obj m (Num 0)) monthNames [] = map (\<lambda>m. (m, Num 0)) monthNames"
  by (simp add: monthNames_def obj_set_def)

lemma monthNames_facts:
  "length monthNames = 12" "distinct monthNames" "''undefined'' \<notin> set monthNames"
  "\<forall>k\<in>set monthNames. proto_get k = Undefined" "proto_get ''undefined'' = Undefined"
  by (simp_all add: monthNames_def proto_get_def)

lemma month_key_eq:
  assumes "i < 12"
  shows "month_key h e = monthNames ! i \<longleftrightarrow> getMonth h (new_Date h (reported_at e)) = Some i"
proof (cases "getMonth h (new_Date h (reported_at e))")
  case None
  then show ?thesis
    using assms monthNames_facts by (auto simp: month_key_def dest: nth_mem)
next
  case (Some m)
  then have "m < 12"
    by (auto simp: getMonth_def MonthFromTime_less)
  then show ?thesis
    using Some assms monthNames_facts by (simp add: month_key_def nth_eq_iff_index_eq)
qed

lemma month_key_proto: "proto_get (month_key h e) = Undefined"
  using monthNames_facts by (auto simp: month_key_def split: option.splits)

lemma processEventsByMonth_rows:
  "processEventsByMonth h E =
     map (\<lambda>i. \<lparr>month = monthNames ! i,
               month_count = Num (length (filter (\<lambda>e. getMonth h (new_Date h (reported_at e)) = Some i) E))\<rparr>)
       [0..<12]"
proof -
  define obj0 where "obj0 = map (\<lambda>m. (m, Num 0)) monthNames"
  define obj where "obj = fold count_key (map (month_key h) E) obj0"
  have n0: "numeric obj0" and k0: "fst ` set obj0 = set monthNames"
    and c0: "\<And>k. cnt obj0 k = 0"
    by (auto simp: obj0_def numeric_def cnt_def map_of_map_restrict restrict_map_def image_iff
        split: option.splits jsval.splits)
  have pf: "\<forall>k\<in>set (map (month_key h) E). proto_get k = Undefined"
    by (simp add: month_key_proto)
  have get: "obj_get obj (monthNames ! i)
      = Num (length (filter (\<lambda>e. getMonth h (new_Date h (reported_at e)) = Some i) E))"
    if "i < 12" for i
  proof -
    have "monthNames ! i \<in> fst ` set obj"
      using that monthNames_facts(1) by (simp add: obj_def fold_count_key(3) [OF pf n0] k0)
    then have "obj_get obj (monthNames ! i) = Num (cnt obj (monthNames ! i))"
      by (simp add: obj_get_cnt obj_def fold_count_key(1) [OF pf n0])
    also have "cnt obj (monthNames ! i) = length (filter (\<lambda>e. month_key h e = monthNames ! i) E)"
      by (simp add: obj_def fold_count_key(2) [OF pf n0] c0 count_list_map_filter)
    finally show ?thesis
      by (simp add: month_key_eq [OF that])
  qed
  have "processEventsByMonth h E = map (\<lambda>m. \<lparr>month = m, month_count = obj_get obj m\<rparr>) monthNames"
    by (simp add: processEventsByMonth_def monthCounts0 obj_def obj0_def fold_map comp_def)
  also have "\<dots> = map (\<lambda>i. \<lparr>month = monthNames ! i, month_count = obj_get obj (monthNames ! i)\<rparr>)
      [0..<length monthNames]"
    by (rule map_by_index)
  also have "\<dots> = map (\<lambda>i. \<lparr>month = monthNames ! i,
      month_count = Num (length (filter (\<lambda>e. getMonth h (new_Date h (reported_at e)) = Some i) E))\<rparr>)
      [0..<12]"
    using get by (simp add: monthNames_facts(1))
  finally show ?thesis .
qed


lemma alert_name_facts:
  "alert_name c = alert_name c' \<longleftrightarrow> c = c'"
  "proto_get (alert_name c) = Undefined"
  "\<not> is_array_index (alert_name c)"
  by (cases c; cases c'; simp add: proto_get_def is_array_index_def is_digit_def)+

lemma Object_entries_no_index:
  assumes "\<forall>p\<in>set obj. \<not> is_array_index (fst p)"
  shows "Object_entries obj = obj"
proof -
  have "filter (\<lambda>p. is_array_index (fst p)) obj = []" "filter (\<lambda>p. \<not> is_array_index (fst p)) obj = obj"
    using assms by (simp_all add: filter_empty_conv filter_id_conv)
  then show ?thesis
    by (simp add: Object_entries_def)
qed

lemma processEventsByAlertCode_rows:
  "processEventsByAlertCode E =
     map (\<lambda>c. \<lparr>name = alert_name c,
               val = Num (length (filter (\<lambda>e. alert_code e = c) E)),
               percentage = toFixed1 (fmul (fdiv (Fin (of_nat (length (filter (\<lambda>e. alert_code e = c) E))))
                                               (Fin (of_nat (if length E = 0 then 1 else length E))))
                                         (Fin 100)),
               fill = obj_get ALERT_COLORS (alert_name c)\<rparr>)
       [GREEN, YELLOW, ORANGE, RED]"
proof -
  define obj0 where "obj0 = map (\<lambda>c. (alert_name c, Num 0)) [GREEN, YELLOW, ORANGE, RED]"
  define ks where "ks = map (\<lambda>e. alert_name (alert_code e)) E"
  define obj where "obj = fold count_key ks obj0"
  have n0: "numeric obj0" and c0: "\<And>k. cnt obj0 k = 0" and d0: "distinct (map fst obj0)"
    by (auto simp: obj0_def numeric_def cnt_def split: if_splits)
  have pf: "\<forall>k\<in>set ks. proto_get k = Undefined"
    by (simp add: ks_def alert_name_facts)
  have sub: "set ks \<subseteq> fst ` set obj0"
  proof
    fix k assume "k \<in> set ks"
    then obtain e :: event where "k = alert_name (alert_code e)"
      by (auto simp: ks_def)
    then show "k \<in> fst ` set obj0"
      by (cases "alert_code e") (simp_all add: obj0_def)
  qed
  have keys: "map fst obj = map alert_name [GREEN, YELLOW, ORANGE, RED]"
    unfolding obj_def fold_count_key_keys_same [OF sub pf] by (simp add: obj0_def)
  have "numeric obj" "distinct (map fst obj)"
    by (simp_all add: obj_def fold_count_key(1) [OF pf n0] fold_count_key_distinct d0)
  from numeric_entries [OF this]
  have "obj = map (\<lambda>c. (alert_name c, Num (cnt obj (alert_name c)))) [GREEN, YELLOW, ORANGE, RED]"
    unfolding keys by simp
  moreover have "cnt obj (alert_name c) = length (filter (\<lambda>e. alert_code e = c) E)" for c
  proof -
    have "cnt obj (alert_name c) = count_list ks (alert_name c)"
      by (simp add: obj_def fold_count_key(2) [OF pf n0] c0)
    then show ?thesis
      by (simp add: ks_def count_list_map_filter alert_name_facts)
  qed
  ultimately have obj: "obj = map (\<lambda>c. (alert_name c, Num (length (filter (\<lambda>e. alert_code e = c) E))))
      [GREEN, YELLOW, ORANGE, RED]"
    by simp
  have "fst ` set obj = alert_name ` {GREEN, YELLOW, ORANGE, RED}"
    using arg_cong [OF keys, of set] by simp
  then have "\<forall>p\<in>set obj. \<not> is_array_index (fst p)"
    using alert_name_facts(3) by (metis (no_types, lifting) image_iff)
  then have ent: "Object_entries obj = obj"
    by (rule Object_entries_no_index)
  have "processEventsByAlertCode E =
      map (\<lambda>(code, count).
             \<lparr>name = code, val = count,
              percentage = toFixed1 (fmul (fdiv (ToNumber count)
                  (Fin (of_nat (if length E = 0 then 1 else length E)))) (Fin 100)),
              fill = obj_get ALERT_COLORS code\<rparr>) obj"
  proof -
    have "fold (\<lambda>e. count_key (alert_name (alert_code e))) E
        [(''GREEN'', Num 0), (''YELLOW'', Num 0), (''ORANGE'', Num 0), (''RED'', Num 0)] = obj"
      by (simp add: obj_def ks_def obj0_def fold_map comp_def)
    then show ?thesis
      by (simp only: processEventsByAlertCode_def Let_def ent)
  qed
  also have "\<dots> = map (\<lambda>c. \<lparr>name = alert_name c,
               val = Num (length (filter (\<lambda>e. alert_code e = c) E)),
               percentage = toFixed1 (fmul (fdiv (Fin (of_nat (length (filter (\<lambda>e. alert_code e = c) E))))
                                               (Fin (of_nat (if length E = 0 then 1 else length E))))
                                         (Fin 100)),
               fill = obj_get ALERT_COLORS (alert_name c)\<rparr>)
       [GREEN, YELLOW, ORANGE, RED]"
    by (subst obj) simp
  finally show ?thesis .
qed

lemma fold_incr_at:
  "length (fold (\<lambda>e. incr_at (f e)) E cs) = length cs"
  "i < length cs \<Longrightarrow>
     fold (\<lambda>e. incr_at (f e)) E cs ! i = cs ! i + length (filter (\<lambda>e. f e = Some i) E)"
proof (induction E arbitrary: cs)
  case Nil
  {
    case 1 show ?case by simp
  next
    case 2 show ?case by simp
  }
next
  case (Cons e E)
  {
    case 1
    show ?case
      using Cons.IH(1) [of "incr_at (f e) cs"] by (simp add: incr_at_def split: option.splits)
  next
    case 2
    then have "i < length (incr_at (f e) cs)"
      by (simp add: incr_at_def split: option.splits)
    from Cons.IH(2) [OF this] 2 show ?case
      by (auto simp: incr_at_def nth_list_update split: option.splits)
  }
qed

lemma zip_index: "zip xs [0..<length xs] = map (\<lambda>i. (xs ! i, i)) [0..<length xs]"
  by (rule nth_equalityI) simp_all

lemma dayNames_length: "length dayNames = 7"
  by (simp add: dayNames_def)

lemma processEventsByDayOfWeek_rows:
  "processEventsByDayOfWeek h E =
     map (\<lambda>i. \<lparr>day = dayNames ! i,
               day_count = length (filter (\<lambda>e. getDay h (new_Date h (reported_at e)) = Some i) E)\<rparr>)
       [0..<7]"
proof -
  define cs where "cs = fold (\<lambda>e. incr_at (getDay h (new_Date h (reported_at e)))) E [0, 0, 0, 0, 0, 0, 0]"
  have c: "cs ! i = length (filter (\<lambda>e. getDay h (new_Date h (reported_at e)) = Some i) E)"
    if "i < 7" for i
  proof -
    have "[0, 0, 0, 0, 0, 0, 0] ! i = (0::nat)"
      using that by (simp add: nth_Cons split: nat.splits)
    then show ?thesis
      using that fold_incr_at(2) [of i "[0, 0, 0, 0, 0, 0, 0]" "\<lambda>e. getDay h (new_Date h (reported_at e))" E]
      by (simp add: cs_def)
  qed
  have "processEventsByDayOfWeek h E =
      map (\<lambda>(d, idx). \<lparr>day = d, day_count = cs ! idx\<rparr>) (zip dayNames [0..<length dayNames])"
    by (simp add: processEventsByDayOfWeek_def cs_def)
  also have "\<dots> = map (\<lambda>i. \<lparr>day = dayNames ! i, day_count = cs ! i\<rparr>) [0..<length dayNames]"
    by (simp add: zip_index)
  also have "\<dots> = map (\<lambda>i. \<lparr>day = dayNames ! i,
      day_count = length (filter (\<lambda>e. getDay h (new_Date h (reported_at e)) = Some i) E)\<rparr>) [0..<7]"
    using c by (simp add: dayNames_length)
  finally show ?thesis .
qed

lemma processEventsByHour_rows:
  "processEventsByHour h E =
     map (\<lambda>i. \<lparr>hour = padStart0 2 (toString_nat i) @ '':00'',
               hour_count = length (filter (\<lambda>e. getHours h (new_Date h (reported_at e)) = Some i) E)\<rparr>)
       [0..<24]"
proof -
  define cs where "cs = fold (\<lambda>e. incr_at (getHours h (new_Date h (reported_at e)))) E (replicate 24 0)"
  have l: "length cs = 24"
    by (simp add: cs_def fold_incr_at(1))
  have c: "cs ! i = length (filter (\<lambda>e. getHours h (new_Date h (reported_at e)) = Some i) E)"
    if "i < 24" for i
    using that fold_incr_at(2) [of i "replicate 24 0" "\<lambda>e. getHours h (new_Date h (reported_at e))" E]
    by (simp add: cs_def)
  have "processEventsByHour h E =
      map (\<lambda>(count, hr). \<lparr>hour = padStart0 2 (toString_nat hr) @ '':00'', hour_count = count\<rparr>)
        (zip cs [0..<length cs])"
    by (simp add: processEventsByHour_def cs_def Let_def)
  also have "\<dots> = map (\<lambda>i. \<lparr>hour = padStart0 2 (toString_nat i) @ '':00'', hour_count = cs ! i\<rparr>)
      [0..<length cs]"
    by (simp add: zip_index)
  also have "\<dots> = map (\<lambda>i. \<lparr>hour = padStart0 2 (toString_nat i) @ '':00'',
      hour_count = length (filter (\<lambda>e. getHours h (new_Date h (reported_at e)) = Some i) E)\<rparr>) [0..<24]"
    using c by (simp add: l)
  finally show ?thesis .
qed


section \<open>Theorems: fixed-dimension aggregators\<close>

lemma sum_alert_buckets:
  "(\<Sum>c\<leftarrow>[GREEN, YELLOW, ORANGE, RED]. length (filter (\<lambda>e::event. alert_code e = c) E)) = length E"
proof (induction E)
  case Nil
  then show ?case by simp
next
  case (Cons e E)
  then show ?case by (cases "alert_code e") simp_all
qed

text \<open>
  C2. When every event has a parseable \<open>reported_at\<close> (the alert code is one of the four
  values by its type), the counts of the by-month, by-alert-code, by-day-of-week and
  by-hour rows are numbers and each of the four sums is the number of events.
\<close>

theorem bucket_counts_sum:
  assumes "\<forall>e\<in>set E. new_Date h (reported_at e) \<noteq> None"
  shows "\<exists>ms as. map month_count (processEventsByMonth h E) = map Num ms \<and> sum_list ms = length E
           \<and> map val (processEventsByAlertCode E) = map Num as \<and> sum_list as = length E
           \<and> sum_list (map day_count (processEventsByDayOfWeek h E)) = length E
           \<and> sum_list (map hour_count (processEventsByHour h E)) = length E"
proof -
  let ?d = "\<lambda>e. new_Date h (reported_at e)"
  have m: "\<forall>e\<in>set E. \<exists>i<12. getMonth h (?d e) = Some i"
    using assms by (auto simp: getMonth_def MonthFromTime_less)
  have d: "\<forall>e\<in>set E. \<exists>i<7. getDay h (?d e) = Some i"
    using assms by (auto simp: getDay_def WeekDay_less)
  have hr: "\<forall>e\<in>set E. \<exists>i<24. getHours h (?d e) = Some i"
    using assms by (auto simp: getHours_def HourFromTime_less)
  let ?ms = "map (\<lambda>i. length (filter (\<lambda>e. getMonth h (?d e) = Some i) E)) [0..<12]"
  let ?as = "map (\<lambda>c. length (filter (\<lambda>e. alert_code e = c) E)) [GREEN, YELLOW, ORANGE, RED]"
  have "map month_count (processEventsByMonth h E) = map Num ?ms"
    by (simp only: processEventsByMonth_rows map_map comp_def month_row.simps)
  moreover have "sum_list ?ms = length E"
    using sum_buckets [OF m] by (simp only: comp_def)
  moreover have "map val (processEventsByAlertCode E) = map Num ?as"
    by (simp only: processEventsByAlertCode_rows map_map comp_def alert_row.simps)
  moreover have "sum_list ?as = length E"
    using sum_alert_buckets [of E] by (simp only: comp_def)
  moreover have "sum_list (map day_count (processEventsByDayOfWeek h E)) = length E"
    using sum_buckets [OF d] by (simp only: processEventsByDayOfWeek_rows map_map comp_def day_row.simps)
  moreover have "sum_list (map hour_count (processEventsByHour h E)) = length E"
    using sum_buckets [OF hr] by (simp only: processEventsByHour_rows map_map comp_def hour_row.simps)
  ultimately show ?thesis
    by blast
qed

lemma scenario_dates:
  "new_Date scenario_host ''2024-03-15T10:00'' = Some 1710489600000"
  "new_Date scenario_host ''2024-03-15T14:00'' = Some 1710504000000"
  by (simp_all add: new_Date_def TimeClip_def scenario_host_def)

theorem bucket_counts_sum_witness:
  "map reported_at scenario_events = [''2024-03-15T10:00'', ''2024-03-15T14:00'']
   \<and> new_Date scenario_host ''2024-03-15T10:00'' = Some 1710489600000
   \<and> new_Date scenario_host ''2024-03-15T14:00'' = Some 1710504000000
   \<and> (\<exists>ms as. map month_count (processEventsByMonth scenario_host scenario_events) = map Num ms
         \<and> sum_list ms = 2
         \<and> map val (processEventsByAlertCode scenario_events) = map Num as \<and> sum_list as = 2
         \<and> sum_list (map day_count (processEventsByDayOfWeek scenario_host scenario_events)) = 2
         \<and> sum_list (map hour_count (processEventsByHour scenario_host scenario_events)) = 2)"
proof -
  have p: "\<forall>e\<in>set scenario_events. new_Date scenario_host (reported_at e) \<noteq> None"
    by (simp add: scenario_events_def scenario_event_def scenario_dates)
  have l: "length scenario_events = 2"
    by (simp add: scenario_events_def)
  have "map reported_at scenario_events = [''2024-03-15T10:00'', ''2024-03-15T14:00'']"
    by (simp add: scenario_events_def scenario_event_def)
  then show ?thesis
    using bucket_counts_sum [OF p] scenario_dates unfolding l by blast
qed


text \<open>
  C3. For every event list, the empty one included, the four fixed-dimension aggregators
  return exactly their enumerated labels in their fixed order: the twelve month names,
  the four severities, the seven weekdays from Sunday, the hours \<open>00:00\<close> to \<open>23:00\<close>.
  A bucket that no event falls into has count \<open>0\<close>.
\<close>

theorem aggregator_labels:
  "map month (processEventsByMonth h E) =
     [''Jan'', ''Feb'', ''Mar'', ''Apr'', ''May'', ''Jun'', ''Jul'', ''Aug'', ''Sep'', ''Oct'', ''Nov'', ''Dec'']
   \<and> map name (processEventsByAlertCode E) = [''GREEN'', ''YELLOW'', ''ORANGE'', ''RED'']
   \<and> map day (processEventsByDayOfWeek h E) =
     [''Sunday'', ''Monday'', ''Tuesday'', ''Wednesday'', ''Thursday'', ''Friday'', ''Saturday'']
   \<and> map hour (processEventsByHour h E) =
     [''00:00'', ''01:00'', ''02:00'', ''03:00'', ''04:00'', ''05:00'', ''06:00'', ''07:00'',
      ''08:00'', ''09:00'', ''10:00'', ''11:00'', ''12:00'', ''13:00'', ''14:00'', ''15:00'',
      ''16:00'', ''17:00'', ''18:00'', ''19:00'', ''20:00'', ''21:00'', ''22:00'', ''23:00'']
   \<and> (\<forall>i<12. (\<forall>e\<in>set E. getMonth h (new_Date h (reported_at e)) \<noteq> Some i)
          \<longrightarrow> month_count (processEventsByMonth h E ! i) = Num 0)
   \<and> (\<forall>i<4. (\<forall>e\<in>set E. alert_code e \<noteq> [GREEN, YELLOW, ORANGE, RED] ! i)
          \<longrightarrow> val (processEventsByAlertCode E ! i) = Num 0)
   \<and> (\<forall>i<7. (\<forall>e\<in>set E. getDay h (new_Date h (reported_at e)) \<noteq> Some i)
          \<longrightarrow> day_count (processEventsByDayOfWeek h E ! i) = 0)
   \<and> (\<forall>i<24. (\<forall>e\<in>set E. getHours h (new_Date h (reported_at e)) \<noteq> Some i)
          \<longrightarrow> hour_count (processEventsByHour h E ! i) = 0)"
proof -
  have u12: "[0..<12] = [0, 1, 2, 3, 4, 5, 6, 7, 8, 9, 10, 11::nat]"
    and u7: "[0..<7] = [0, 1, 2, 3, 4, 5, 6::nat]"
    by code_simp+
  have m: "map month (processEventsByMonth h E) =
     [''Jan'', ''Feb'', ''Mar'', ''Apr'', ''May'', ''Jun'', ''Jul'', ''Aug'', ''Sep'', ''Oct'', ''Nov'', ''Dec'']"
    unfolding processEventsByMonth_rows u12 by (simp add: monthNames_def)
  have a: "map name (processEventsByAlertCode E) = [''GREEN'', ''YELLOW'', ''ORANGE'', ''RED'']"
    unfolding processEventsByAlertCode_rows by simp
  have d: "map day (processEventsByDayOfWeek h E) =
     [''Sunday'', ''Monday'', ''Tuesday'', ''Wednesday'', ''Thursday'', ''Friday'', ''Saturday'']"
    unfolding processEventsByDayOfWeek_rows u7 by (simp add: dayNames_def)
  have "map (\<lambda>i. padStart0 2 (toString_nat i) @ '':00'') [0..<24] =
     [''00:00'', ''01:00'', ''02:00'', ''03:00'', ''04:00'', ''05:00'', ''06:00'', ''07:00'',
      ''08:00'', ''09:00'', ''10:00'', ''11:00'', ''12:00'', ''13:00'', ''14:00'', ''15:00'',
      ''16:00'', ''17:00'', ''18:00'', ''19:00'', ''20:00'', ''21:00'', ''22:00'', ''23:00'']"
    by code_simp
  then have hr: "map hour (processEventsByHour h E) =
     [''00:00'', ''01:00'', ''02:00'', ''03:00'', ''04:00'', ''05:00'', ''06:00'', ''07:00'',
      ''08:00'', ''09:00'', ''10:00'', ''11:00'', ''12:00'', ''13:00'', ''14:00'', ''15:00'',
      ''16:00'', ''17:00'', ''18:00'', ''19:00'', ''20:00'', ''21:00'', ''22:00'', ''23:00'']"
    unfolding processEventsByHour_rows by (simp only: map_map comp_def hour_row.simps)
  have zm: "\<forall>i<12. (\<forall>e\<in>set E. getMonth h (new_Date h (reported_at e)) \<noteq> Some i)
          \<longrightarrow> month_count (processEventsByMonth h E ! i) = Num 0"
    unfolding processEventsByMonth_rows by (simp add: filter_empty_conv)
  have za: "\<forall>i<4. (\<forall>e\<in>set E. alert_code e \<noteq> [GREEN, YELLOW, ORANGE, RED] ! i)
          \<longrightarrow> val (processEventsByAlertCode E ! i) = Num 0"
  proof (intro allI impI)
    fix i :: nat
    assume i: "i < 4" and none: "\<forall>e\<in>set E. alert_code e \<noteq> [GREEN, YELLOW, ORANGE, RED] ! i"
    have "val (processEventsByAlertCode E ! i) =
        Num (length (filter (\<lambda>e. alert_code e = [GREEN, YELLOW, ORANGE, RED] ! i) E))"
      unfolding processEventsByAlertCode_rows using i
      by (subst nth_map) (simp, simp only: alert_row.simps)
    also have "filter (\<lambda>e. alert_code e = [GREEN, YELLOW, ORANGE, RED] ! i) E = []"
      using none by (simp only: filter_empty_conv)
    finally show "val (processEventsByAlertCode E ! i) = Num 0"
      by simp
  qed
  have zd: "\<forall>i<7. (\<forall>e\<in>set E. getDay h (new_Date h (reported_at e)) \<noteq> Some i)
          \<longrightarrow> day_count (processEventsByDayOfWeek h E ! i) = 0"
    unfolding processEventsByDayOfWeek_rows by (simp add: filter_empty_conv)
  have zh: "\<forall>i<24. (\<forall>e\<in>set E. getHours h (new_Date h (reported_at e)) \<noteq> Some i)
          \<longrightarrow> hour_count (processEventsByHour h E ! i) = 0"
    unfolding processEventsByHour_rows by (simp add: filter_empty_conv)
  from m a d hr zm za zd zh show ?thesis
    by (intro conjI)
qed

lemma scenario_getters:
  "getMonth scenario_host (Some 1710489600000) = Some 2"
  "getMonth scenario_host (Some 1710504000000) = Some 2"
  "getDay scenario_host (Some 1710489600000) = Some 5"
  "getDay scenario_host (Some 1710504000000) = Some 5"
  "getHours scenario_host (Some 1710489600000) = Some 10"
  "getHours scenario_host (Some 1710504000000) = Some 14"
  by code_simp+

theorem aggregator_labels_witness:
  "month_count (processEventsByMonth scenario_host scenario_events ! 0) = Num 0
   \<and> val (processEventsByAlertCode scenario_events ! 1) = Num 0
   \<and> day_count (processEventsByDayOfWeek scenario_host scenario_events ! 0) = 0
   \<and> hour_count (processEventsByHour scenario_host scenario_events ! 0) = 0
   \<and> map month (processEventsByMonth scenario_host []) =
     [''Jan'', ''Feb'', ''Mar'', ''Apr'', ''May'', ''Jun'', ''Jul'', ''Aug'', ''Sep'', ''Oct'', ''Nov'', ''Dec'']
   \<and> map month_count (processEventsByMonth scenario_host []) = replicate 12 (Num 0)"
proof -
  have "\<forall>e\<in>set scenario_events. getMonth scenario_host (new_Date scenario_host (reported_at e)) \<noteq> Some 0"
    "\<forall>e\<in>set scenario_events. alert_code e \<noteq> [GREEN, YELLOW, ORANGE, RED] ! 1"
    "\<forall>e\<in>set scenario_events. getDay scenario_host (new_Date scenario_host (reported_at e)) \<noteq> Some 0"
    "\<forall>e\<in>set scenario_events. getHours scenario_host (new_Date scenario_host (reported_at e)) \<noteq> Some 0"
    by (simp_all add: scenario_events_def scenario_event_def scenario_dates scenario_getters)
  moreover have "map month_count (processEventsByMonth scenario_host []) = replicate 12 (Num 0)"
  proof (rule nth_equalityI)
    show "length (map month_count (processEventsByMonth scenario_host [])) = length (replicate 12 (Num 0))"
      using arg_cong [OF conjunct1 [OF aggregator_labels [of scenario_host "[]"]], of length] by simp
  next
    fix i assume "i < length (map month_count (processEventsByMonth scenario_host []))"
    then have i: "i < 12"
      using arg_cong [OF conjunct1 [OF aggregator_labels [of scenario_host "[]"]], of length] by simp
    then have "i < length (processEventsByMonth scenario_host [])"
      using arg_cong [OF conjunct1 [OF aggregator_labels [of scenario_host "[]"]], of length] by simp
    then show "map month_count (processEventsByMonth scenario_host []) ! i = replicate 12 (Num 0) ! i"
      using aggregator_labels [of scenario_host "[]"] i by simp
  qed
  ultimately show ?thesis
    using aggregator_labels [of scenario_host scenario_events] aggregator_labels [of scenario_host "[]"]
    by simp
qed


text \<open>
  What holds of \<open>processTopTags\<close> when no tag is the name of a property of
  \<open>Object.prototype\<close>: at most 10 rows, with distinct tags that occur in the events, each
  with the number of its occurrences in all tag lists (a tag written twice in one event
  counts twice), in non-increasing order of count.
\<close>

lemma insort_cmp_insort_key:
  assumes "\<forall>b\<in>set ys. (cmp a b \<le> 0) = (f a \<le> f b)"
  shows "insort_cmp cmp a ys = insort_key f a ys"
  using assms by (induction ys) simp_all

lemma sort_cmp_sort_key:
  fixes f :: "'a \<Rightarrow> 'b::linorder"
  assumes "\<forall>a\<in>set xs. \<forall>b\<in>set xs. (cmp a b \<le> 0) = (f a \<le> f b)"
  shows "sort_cmp cmp xs = sort_key f xs"
  using assms
proof (induction xs)
  case Nil
  then show ?case
    by (simp add: sort_cmp_def)
next
  case (Cons x xs)
  then have ih: "sort_cmp cmp xs = sort_key f xs"
    by simp
  have "\<forall>b\<in>set (sort_key f xs). (cmp x b \<le> 0) = (f x \<le> f b)"
    using Cons.prems by simp
  from insort_cmp_insort_key [of "sort_key f xs" cmp x f, OF this] show ?case
    using ih by (simp add: sort_cmp_def)
qed

lemma Object_entries_set: "set (Object_entries obj) = set obj"
  by (auto simp: Object_entries_def)

lemma Object_entries_distinct: "distinct obj \<Longrightarrow> distinct (Object_entries obj)"
  by (auto simp: Object_entries_def)

lemma distinct_map_fst_same_set:
  assumes "distinct (map fst xs)" and "set ys = set xs" and "distinct ys"
  shows "distinct (map fst ys)"
  using assms by (simp add: distinct_map)

lemma fold_tags: "fold (\<lambda>e obj. fold count_key (tags e) obj) E obj = fold count_key (concat (map tags E)) obj"
  by (induction E arbitrary: obj) simp_all

lemma processTopTags_ordinary:
  assumes ord: "\<forall>e\<in>set E. \<forall>t\<in>set (tags e). proto_get t = Undefined"
  shows "length (processTopTags E) \<le> 10"
    and "distinct (map tag (processTopTags E))"
    and "\<forall>r\<in>set (processTopTags E). tag r \<in> set (concat (map tags E))
            \<and> tag_count r = Num (count_list (concat (map tags E)) (tag r))"
    and "sorted_wrt (\<lambda>a b. count_list (concat (map tags E)) (tag b)
                             \<le> count_list (concat (map tags E)) (tag a)) (processTopTags E)"
proof -
  define ts where "ts = concat (map tags E)"
  define obj where "obj = fold count_key ts []"
  define f where "f p = - int (cnt obj (fst p))" for p :: "string \<times> jsval"
  define srt where "srt = sort_cmp (\<lambda>a b. num_diff (snd b) (snd a)) (Object_entries obj)"
  have pf: "\<forall>k\<in>set ts. proto_get k = Undefined"
    using ord by (auto simp: ts_def)
  have n0: "numeric []"
    by (simp add: numeric_def)
  have num: "numeric obj" and dist: "distinct (map fst obj)"
    and kset: "fst ` set obj = set ts"
    and c: "\<And>k. cnt obj k = count_list ts k"
    using fold_count_key [OF pf n0] fold_count_key_distinct [of "[]" ts]
    by (simp_all add: obj_def cnt_def)
  have val: "snd p = Num (cnt obj (fst p))" if "p \<in> set obj" for p
    using numeric_entries [OF num dist] that
    by (metis (no_types, lifting) imageE list.set_map snd_conv fst_conv)
  have eset: "set (Object_entries obj) = set obj"
    by (rule Object_entries_set)
  have "\<forall>a\<in>set (Object_entries obj). \<forall>b\<in>set (Object_entries obj).
      (num_diff (snd b) (snd a) \<le> 0) = (f a \<le> f b)"
    using val by (simp add: eset f_def)
  from sort_cmp_sort_key [OF this] have srt: "srt = sort_key f (Object_entries obj)"
    by (simp add: srt_def)
  have sset: "set srt = set obj"
    by (simp add: srt eset)
  have "distinct obj"
    using dist by (simp add: distinct_map)
  then have "distinct srt"
    by (simp add: srt Object_entries_distinct)
  with dist sset have sdist: "distinct (map fst srt)"
    by (rule distinct_map_fst_same_set)
  have "sorted (map f srt)"
    by (simp add: srt)
  then have ssorted: "sorted_wrt (\<lambda>a b. f a \<le> f b) srt"
    by (simp add: sorted_map)
  have rows: "processTopTags E = map (\<lambda>(t, count). \<lparr>tag = t, tag_count = count\<rparr>) (take 10 srt)"
    by (simp add: processTopTags_def srt_def obj_def ts_def fold_tags comp_def)
  show "length (processTopTags E) \<le> 10"
    by (simp add: rows)
  have tg: "map tag (processTopTags E) = take 10 (map fst srt)"
    by (simp add: rows take_map comp_def case_prod_beta)
  show "distinct (map tag (processTopTags E))"
    unfolding tg using sdist by (rule distinct_take)
  show "\<forall>r\<in>set (processTopTags E). tag r \<in> set (concat (map tags E))
            \<and> tag_count r = Num (count_list (concat (map tags E)) (tag r))"
  proof
    fix r assume "r \<in> set (processTopTags E)"
    then obtain p where p: "p \<in> set (take 10 srt)" "r = \<lparr>tag = fst p, tag_count = snd p\<rparr>"
      by (auto simp: rows)
    then have "p \<in> set obj"
      using sset in_set_takeD [of p 10 srt] by simp
    then show "tag r \<in> set (concat (map tags E))
            \<and> tag_count r = Num (count_list (concat (map tags E)) (tag r))"
      using val [of p] kset c p(2) by (auto simp: ts_def)
  qed
  have "sorted_wrt (\<lambda>a b. f a \<le> f b) (take 10 srt)"
    using ssorted by (rule sorted_wrt_take)
  then have "sorted_wrt (\<lambda>a b. count_list ts (fst b) \<le> count_list ts (fst a)) (take 10 srt)"
    by (simp add: f_def c)
  then show "sorted_wrt (\<lambda>a b. count_list (concat (map tags E)) (tag b)
                             \<le> count_list (concat (map tags E)) (tag a)) (processTopTags E)"
    by (simp add: rows sorted_wrt_map case_prod_beta ts_def)
qed

section \<open>The scenario of the spec, evaluated\<close>

text \<open>
  Two events reported on 2024-03-15 at 10:00 and 14:00 local time, the first \<open>RED\<close> with
  the tag \<open>fire\<close>, the second \<open>GREEN\<close> with the tags \<open>fire\<close> and \<open>smoke\<close>.
\<close>

lemma scenario_by_month:
  "processEventsByMonth scenario_host scenario_events =
     [\<lparr>month = ''Jan'', month_count = Num 0\<rparr>, \<lparr>month = ''Feb'', month_count = Num 0\<rparr>,
      \<lparr>month = ''Mar'', month_count = Num 2\<rparr>, \<lparr>month = ''Apr'', month_count = Num 0\<rparr>,
      \<lparr>month = ''May'', month_count = Num 0\<rparr>, \<lparr>month = ''Jun'', month_count = Num 0\<rparr>,
      \<lparr>month = ''Jul'', month_count = Num 0\<rparr>, \<lparr>month = ''Aug'', month_count = Num 0\<rparr>,
      \<lparr>month = ''Sep'', month_count = Num 0\<rparr>, \<lparr>month = ''Oct'', month_count = Num 0\<rparr>,
      \<lparr>month = ''Nov'', month_count = Num 0\<rparr>, \<lparr>month = ''Dec'', month_count = Num 0\<rparr>]"
  by code_simp

lemma scenario_by_alert_code:
  "processEventsByAlertCode scenario_events =
     [\<lparr>name = ''GREEN'', val = Num 1, percentage = Digits1 False 500, fill = Str ''#22c55e''\<rparr>,
      \<lparr>name = ''YELLOW'', val = Num 0, percentage = Digits1 False 0, fill = Str ''#eab308''\<rparr>,
      \<lparr>name = ''ORANGE'', val = Num 0, percentage = Digits1 False 0, fill = Str ''#f97316''\<rparr>,
      \<lparr>name = ''RED'', val = Num 1, percentage = Digits1 False 500, fill = Str ''#ef4444''\<rparr>]"
  "numstr_text False 500 = ''50.0''" "numstr_text False 0 = ''0.0''"
  by code_simp+

lemma scenario_by_hour:
  "map hour_count (processEventsByHour scenario_host scenario_events) =
     [0, 0, 0, 0, 0, 0, 0, 0, 0, 0, 1, 0, 0, 0, 1, 0, 0, 0, 0, 0, 0, 0, 0, 0]"
  "map day_count (processEventsByDayOfWeek scenario_host scenario_events) = [0, 0, 0, 0, 0, 2, 0]"
  by code_simp+

lemma scenario_top_tags:
  "processTopTags scenario_events =
     [\<lparr>tag = ''fire'', tag_count = Num 2\<rparr>, \<lparr>tag = ''smoke'', tag_count = Num 1\<rparr>]"
  by code_simp

lemma scenario_trend_rows:
  "processEventsTrend scenario_host scenario_events = Inr [\<lparr>date = ''Mar 15'', date_count = Num 2\<rparr>]"
  by code_simp

section \<open>Theorems: processTopTags\<close>

text \<open>
  C5. The claim is that every listed tag's count is its number of occurrences. A tag that
  is the name of a property of \<open>Object.prototype\<close> is not counted: for the single event
  with the single tag \<open>constructor\<close>, the lookup \<open>tagCounts['constructor']\<close> finds the
  inherited function, and the count that is returned is a string.
\<close>

theorem processTopTags_constructor:
  "processTopTags [scenario_event ''2024-03-15T10:00'' RED [''constructor'']] =
     [\<lparr>tag = ''constructor'', tag_count = Str ''function Object() { [native code] }1''\<rparr>]"
  by code_simp

text \<open>
  C10. The claim is that a tag repeated inside one event adds more than \<open>1\<close> to its count.
  For the tag \<open>constructor\<close> written twice in one event the returned count is not \<open>2\<close> but a
  string with \<open>1\<close> appended twice; for \<open>__proto__\<close> written twice nothing is returned.
\<close>

theorem processTopTags_repeated_constructor:
  "processTopTags [scenario_event ''2024-03-15T10:00'' RED [''constructor'', ''constructor'']] =
     [\<lparr>tag = ''constructor'', tag_count = Str ''function Object() { [native code] }11''\<rparr>]
   \<and> processTopTags [scenario_event ''2024-03-15T10:00'' RED [''__proto__'', ''__proto__'']] = []"
  by code_simp


section \<open>Theorems: Time-Range Filter\<close>

lemma setDate_back_drift: "setDate_back h now n = now - n * msPerDay + tz_drift h now n"
  by (simp add: setDate_back_def UTC_def LocalTime_def tz_drift_def)

text \<open>
  C7, as the claim states it: under \<open>7d\<close> an event is kept exactly when its date is not
  before \<open>now\<close> minus 7 times 24 hours. In a zone whose clocks went forward during the last
  week this fails: the event below is dated 6 days 23 hours 30 minutes before \<open>now\<close>, so
  not before \<open>now\<close> minus 7 days, and is filtered out.
\<close>

theorem displayEvents_dst_counterexample:
  "new_Date dst_host (reported_at (scenario_event ''2024-03-26T12:30:00Z'' RED [])) = Some 1711456200000
   \<and> 1712059200000 - 7 * msPerDay \<le> 1711456200000
   \<and> displayEvents dst_host 1712059200000 R7d [scenario_event ''2024-03-26T12:30:00Z'' RED []] = []"
  by (simp add: displayEvents_def setDate_back_def UTC_def LocalTime_def dst_host_def
      scenario_event_def new_Date_def TimeClip_def date_ge_def msPerDay_def)

text \<open>
  C7, amended. The selector \<open>all\<close> returns the input unchanged. The selectors \<open>7d\<close>, \<open>30d\<close>
  and \<open>90d\<close> keep exactly the events with a valid date not before the cutoff, for \<open>N\<close> equal
  to 7, 30 and 90: the cutoff is the local time of \<open>now\<close> moved back \<open>N\<close> calendar days and
  read as local time again, which is \<open>now\<close> minus \<open>N\<close> times 24 hours plus the change of the
  zone's offset between the two instants, so exactly \<open>now\<close> minus \<open>N\<close> times 24 hours when the
  offset is the same at both. Whenever that change is at most one hour, under \<open>7d\<close> an
  event dated exactly 8 days before \<open>now\<close> is dropped and one dated exactly 6 days 23 hours
  before \<open>now\<close> is kept.
\<close>

theorem displayEvents_cutoff:
  "displayEvents h now RAll E = E
   \<and> displayEvents h now R7d E =
       filter (\<lambda>e. \<exists>t. new_Date h (reported_at e) = Some t
                       \<and> now - 7 * msPerDay + tz_drift h now 7 \<le> t) E
   \<and> displayEvents h now R30d E =
       filter (\<lambda>e. \<exists>t. new_Date h (reported_at e) = Some t
                       \<and> now - 30 * msPerDay + tz_drift h now 30 \<le> t) E
   \<and> displayEvents h now R90d E =
       filter (\<lambda>e. \<exists>t. new_Date h (reported_at e) = Some t
                       \<and> now - 90 * msPerDay + tz_drift h now 90 \<le> t) E
   \<and> now - n * msPerDay + tz_drift h now n
       = LocalTime h now - n * msPerDay - LocalTZA h (LocalTime h now - n * msPerDay) False
   \<and> (LocalTZA h (LocalTime h now - n * msPerDay) False = LocalTZA h now True \<longrightarrow> tz_drift h now n = 0)
   \<and> (\<bar>tz_drift h now 7\<bar> \<le> msPerHour \<longrightarrow>
        (\<forall>e\<in>set E. new_Date h (reported_at e) = Some (now - 8 * msPerDay)
                   \<longrightarrow> e \<notin> set (displayEvents h now R7d E))
        \<and> (\<forall>e\<in>set E. new_Date h (reported_at e) = Some (now - (6 * msPerDay + 23 * msPerHour))
                   \<longrightarrow> e \<in> set (displayEvents h now R7d E)))"
proof -
  have f: "displayEvents h now tr E =
          filter (\<lambda>e. \<exists>t. new_Date h (reported_at e) = Some t
                          \<and> now - daysMap tr * msPerDay + tz_drift h now (daysMap tr) \<le> t) E"
    if "tr \<noteq> RAll" for tr
  proof -
    have "date_ge d (Some (setDate_back h now (daysMap tr)))
        \<longleftrightarrow> (\<exists>t. d = Some t \<and> now - daysMap tr * msPerDay + tz_drift h now (daysMap tr) \<le> t)" for d
      by (cases d) (simp_all add: date_ge_def setDate_back_drift)
    then show ?thesis
      using that by (simp add: displayEvents_def)
  qed
  have s: "(\<forall>e\<in>set E. new_Date h (reported_at e) = Some (now - 8 * msPerDay)
                   \<longrightarrow> e \<notin> set (displayEvents h now R7d E))
        \<and> (\<forall>e\<in>set E. new_Date h (reported_at e) = Some (now - (6 * msPerDay + 23 * msPerHour))
                   \<longrightarrow> e \<in> set (displayEvents h now R7d E))"
    if "\<bar>tz_drift h now 7\<bar> \<le> msPerHour"
    using that unfolding f [of R7d, simplified] by (auto simp: msPerDay_def msPerHour_def)
  have l: "now - n * msPerDay + tz_drift h now n
       = LocalTime h now - n * msPerDay - LocalTZA h (LocalTime h now - n * msPerDay) False"
    by (simp add: tz_drift_def LocalTime_def)
  have z: "tz_drift h now n = 0"
    if "LocalTZA h (LocalTime h now - n * msPerDay) False = LocalTZA h now True"
    using that by (simp add: tz_drift_def)
  have a: "displayEvents h now RAll E = E"
    by (simp add: displayEvents_def)
  from a f [of R7d, simplified] f [of R30d, simplified] f [of R90d, simplified] l z s
  show ?thesis
    by blast
qed

theorem displayEvents_cutoff_witness:
  "displayEvents scenario_host 1710504000000 R7d
     [scenario_event ''2024-03-07T12:00:00Z'' RED [], scenario_event ''2024-03-08T13:00:00Z'' RED [],
      scenario_event ''not a date'' RED []]
   = [scenario_event ''2024-03-08T13:00:00Z'' RED []]
   \<and> displayEvents scenario_host 1710504000000 R30d
       [scenario_event ''2024-03-07T12:00:00Z'' RED [], scenario_event ''2024-03-08T13:00:00Z'' RED [],
        scenario_event ''not a date'' RED []]
     = [scenario_event ''2024-03-07T12:00:00Z'' RED [], scenario_event ''2024-03-08T13:00:00Z'' RED []]
   \<and> tz_drift scenario_host 1710504000000 7 = 0
   \<and> new_Date scenario_host ''2024-03-07T12:00:00Z'' = Some (1710504000000 - 8 * msPerDay)
   \<and> new_Date scenario_host ''2024-03-08T13:00:00Z'' = Some (1710504000000 - (6 * msPerDay + 23 * msPerHour))"
proof -
  let ?E = "[scenario_event ''2024-03-07T12:00:00Z'' RED [], scenario_event ''2024-03-08T13:00:00Z'' RED [],
      scenario_event ''not a date'' RED []]"
  have tz: "LocalTZA scenario_host (LocalTime scenario_host 1710504000000 - 7 * msPerDay) False
      = LocalTZA scenario_host 1710504000000 True"
    by (simp add: scenario_host_def)
  have d: "new_Date scenario_host ''2024-03-07T12:00:00Z'' = Some (1710504000000 - 8 * msPerDay)"
    "new_Date scenario_host ''2024-03-08T13:00:00Z'' = Some (1710504000000 - (6 * msPerDay + 23 * msPerHour))"
    "new_Date scenario_host ''not a date'' = None"
    by (simp_all add: new_Date_def TimeClip_def scenario_host_def msPerDay_def msPerHour_def)
  have z30: "tz_drift scenario_host 1710504000000 30 = 0"
    by (simp add: tz_drift_def scenario_host_def)
  from displayEvents_cutoff [of scenario_host 1710504000000 ?E 7] tz
  have z: "tz_drift scenario_host 1710504000000 7 = 0"
    and "displayEvents scenario_host 1710504000000 R7d ?E =
          filter (\<lambda>e. \<exists>t. new_Date scenario_host (reported_at e) = Some t
                          \<and> 1710504000000 - 7 * msPerDay
                              + tz_drift scenario_host 1710504000000 7 \<le> t) ?E"
    and "displayEvents scenario_host 1710504000000 R30d ?E =
          filter (\<lambda>e. \<exists>t. new_Date scenario_host (reported_at e) = Some t
                          \<and> 1710504000000 - 30 * msPerDay
                              + tz_drift scenario_host 1710504000000 30 \<le> t) ?E"
    by blast+
  then show ?thesis
    using d z30 by (simp add: scenario_event_def msPerDay_def msPerHour_def)
qed


section \<open>Properties of the rounding\<close>

lemma pow2_powi: "pow2 e = 2 powi e"
  by (simp add: pow2_def power_int_def field_simps)

lemma pow2_pos: "0 < pow2 e"
  by (simp add: pow2_powi)

lemma round_even_bound: "\<bar>of_int (round_even y) - y\<bar> \<le> 1 / 2"
proof -
  define f where "f = \<lfloor>y\<rfloor>"
  define d where "d = y - of_int f"
  have d: "0 \<le> d" "d < 1" and y: "y = of_int f + d"
    unfolding d_def f_def by linarith+
  have "round_even y = (if d < 1 / 2 then f else if 1 / 2 < d then f + 1 else if even f then f else f + 1)"
    by (simp add: round_even_def Let_def f_def d_def)
  then show ?thesis
    using d unfolding y by (auto simp: abs_if)
qed

lemma ilog2_le:
  assumes "0 < x"
  shows "pow2 (ilog2 x) \<le> x"
proof -
  obtain a b where q: "quotient_of x = (a, b)"
    by (cases "quotient_of x")
  then have b: "0 < b" and x: "x = of_int a / of_int b"
    using quotient_of_denom_pos quotient_of_div by blast+
  with assms have a: "0 < a"
    by (simp add: zero_less_divide_iff)
  define k where "k = bitlen a - bitlen b"
  show ?thesis
  proof (cases "pow2 k \<le> x")
    case True
    then show ?thesis
      by (simp add: ilog2_def q k_def)
  next
    case False
    have la: "1 \<le> bitlen a" and lb: "1 \<le> bitlen b"
      using a b bitlen_eq_zero_iff [of a] bitlen_eq_zero_iff [of b] bitlen_nonneg [of a]
        bitlen_nonneg [of b] by linarith+
    have "2 ^ nat (bitlen a - 1) \<le> a" "b < 2 ^ nat (bitlen b)"
      using bitlen_bounds [OF a] bitlen_bounds [OF b] by simp_all
    then have "(2::rat) ^ nat (bitlen a - 1) \<le> of_int a" "(of_int b :: rat) < 2 ^ nat (bitlen b)"
      by (metis of_int_le_iff of_int_numeral of_int_power, metis of_int_less_iff of_int_numeral of_int_power)
    then have pa: "2 powi (bitlen a - 1) \<le> (of_int a :: rat)"
      and pb: "(of_int b :: rat) \<le> 2 powi (bitlen b)"
      using la lb by (simp_all add: power_int_def)
    have "pow2 (k - 1) = 2 powi (bitlen a - 1) / 2 powi (bitlen b)"
      by (simp add: pow2_powi k_def power_int_diff)
    also have "\<dots> \<le> of_int a / of_int b"
      using pa pb a b by (intro frac_le) simp_all
    finally have "pow2 (k - 1) \<le> x"
      by (simp add: x)
    with False show ?thesis
      by (simp add: ilog2_def q k_def)
  qed
qed

lemma pow2_min_half: "pow2 (- 1074) / 2 = 1 / 2 ^ 1075"
proof -
  have "pow2 (- 1074) = 1 / 2 ^ 1074"
    unfolding pow2_powi by (simp add: power_int_minus field_simps)
  moreover have "(2::rat) ^ 1075 = 2 ^ 1074 * 2"
    by simp
  ultimately show ?thesis
    by simp
qed

lemma fl_not_NaN: "fl x \<noteq> NaN"
  by (simp add: fl_def Let_def)

lemma fl_error:
  assumes "\<bar>x\<bar> < 2 ^ 1023"
  shows "\<exists>y. fl x = Fin y \<and> \<bar>y - x\<bar> \<le> \<bar>x\<bar> / 2 ^ 53 + 1 / 2 ^ 1075
             \<and> (0 \<le> x \<longrightarrow> 0 \<le> y) \<and> (x \<le> 0 \<longrightarrow> y \<le> 0)"
proof (cases "x = 0")
  case True
  then show ?thesis
    by (simp add: fl_def)
next
  case False
  define a where "a = \<bar>x\<bar>"
  define e where "e = max (ilog2 a - 52) (- 1074)"
  define m where "m = round_even (a / pow2 e)"
  define y where "y = of_int m * pow2 e"
  have a: "0 < a" "a < 2 ^ 1023"
    using False assms by (simp_all add: a_def)
  have "\<bar>of_int m - a / pow2 e\<bar> \<le> 1 / 2"
    unfolding m_def by (rule round_even_bound)
  then have "\<bar>of_int m - a / pow2 e\<bar> * pow2 e \<le> 1 / 2 * pow2 e"
    using pow2_pos [of e] by (intro mult_right_mono) simp_all
  moreover have "\<bar>of_int m - a / pow2 e\<bar> * pow2 e = \<bar>y - a\<bar>"
  proof -
    have "(of_int m - a / pow2 e) * pow2 e = y - a"
      using pow2_pos [of e] by (simp add: y_def left_diff_distrib)
    then have "\<bar>y - a\<bar> = \<bar>of_int m - a / pow2 e\<bar> * \<bar>pow2 e\<bar>"
      by (simp only: abs_mult [symmetric])
    then show ?thesis
      using pow2_pos [of e] by simp
  qed
  ultimately have err: "\<bar>y - a\<bar> \<le> pow2 e / 2"
    by simp
  have half: "pow2 e / 2 \<le> a / 2 ^ 53 + 1 / 2 ^ 1075"
  proof (cases "ilog2 a - 52 \<le> - 1074")
    case True
    then have "e = - 1074"
      by (simp add: e_def)
    then have "pow2 e / 2 = 1 / 2 ^ 1075"
      by (simp only: pow2_min_half)
    then show ?thesis
      using a(1) by simp
  next
    case False
    then have "e = ilog2 a - 52"
      by (simp add: e_def)
    then have "pow2 e = pow2 (ilog2 a) / 2 ^ 52"
      by (simp add: pow2_powi power_int_diff)
    also have "\<dots> \<le> a / 2 ^ 52"
      using ilog2_le [OF a(1)] by (simp add: divide_right_mono)
    finally have "pow2 e / 2 \<le> a / 2 ^ 53"
      by simp
    then show ?thesis
      by (simp add: add_increasing2)
  qed
  have y0: "0 \<le> y"
  proof -
    have "0 \<le> a / pow2 e"
      using a(1) pow2_pos [of e] by simp
    then have "0 \<le> round_even (a / pow2 e)"
      by (auto simp: round_even_def Let_def)
    then show ?thesis
      using pow2_pos [of e] by (simp add: y_def m_def)
  qed
  have "y \<le> a + (a / 2 ^ 53 + 1 / 2 ^ 1075)"
    using err half by linarith
  also have "\<dots> < 2 ^ 1024"
  proof -
    have "a / 2 ^ 53 \<le> a / 2"
      using a(1) by (intro divide_left_mono) simp_all
    moreover have "(1::rat) / 2 ^ 1075 < 1"
      by simp
    moreover have "(2::rat) ^ 1023 + 2 ^ 1023 / 2 + 1 \<le> 2 ^ 1024"
      by simp
    ultimately show ?thesis
      using a(2) by linarith
  qed
  finally have fin: "\<not> overflow_threshold \<le> y"
    by (simp add: overflow_threshold_def)
  have "fl x = Fin (if 0 < x then y else - y)"
    using False fin by (simp add: fl_def Let_def y_def m_def e_def a_def)
  moreover have "\<bar>(if 0 < x then y else - y) - x\<bar> = \<bar>y - a\<bar>"
    using False by (auto simp: a_def abs_if)
  ultimately show ?thesis
    using err half y0 False by (auto simp: a_def)
qed


section \<open>Theorems: Statistics Calculator\<close>

lemma fdiv_not_NaN: "x \<noteq> NaN \<Longrightarrow> y \<noteq> 0 \<Longrightarrow> fdiv x (Fin y) \<noteq> NaN"
  by (cases x) (simp_all add: fl_not_NaN)

lemma fmul_not_NaN: "x \<noteq> NaN \<Longrightarrow> y \<noteq> 0 \<Longrightarrow> fmul x (Fin y) \<noteq> NaN"
  by (cases x) (simp_all add: fl_not_NaN)

lemma toFixed1_not_NaN: "x \<noteq> NaN \<Longrightarrow> toFixed1 x \<noteq> NumberString NaN"
  by (cases x) simp_all

lemma fold_dmin_Fin: "fold dmin (map (\<lambda>t. Fin (of_int t)) ts) (Fin (of_int a)) = Fin (of_int (fold min ts a))"
proof (induction ts arbitrary: a)
  case Nil
  then show ?case by simp
next
  case (Cons t ts)
  have "dmin (Fin (of_int t)) (Fin (of_int a)) = Fin (of_int (min t a))"
    by (simp add: min_def)
  then show ?case
    using Cons [of "min t a"] by simp
qed

lemma fold_dmax_Fin: "fold dmax (map (\<lambda>t. Fin (of_int t)) ts) (Fin (of_int a)) = Fin (of_int (fold max ts a))"
proof (induction ts arbitrary: a)
  case Nil
  then show ?case by simp
next
  case (Cons t ts)
  have "dmax (Fin (of_int t)) (Fin (of_int a)) = Fin (of_int (max t a))"
    by (simp add: max_def)
  then show ?case
    using Cons [of "max t a"] by simp
qed

lemma fold_min_range:
  fixes a :: int
  assumes "lo \<le> a" and "\<forall>t\<in>set ts. lo \<le> t"
  shows "lo \<le> fold min ts a \<and> fold min ts a \<le> a"
  using assms
proof (induction ts arbitrary: a)
  case Nil
  then show ?case by simp
next
  case (Cons t ts)
  then have "lo \<le> fold min ts (min t a) \<and> fold min ts (min t a) \<le> min t a"
    by (intro Cons.IH) simp_all
  then show ?case
    by simp
qed

lemma fold_max_range:
  fixes a :: int
  assumes "a \<le> hi" and "\<forall>t\<in>set ts. t \<le> hi"
  shows "fold max ts a \<le> hi \<and> a \<le> fold max ts a"
  using assms
proof (induction ts arbitrary: a)
  case Nil
  then show ?case by simp
next
  case (Cons t ts)
  then have "fold max ts (max t a) \<le> hi \<and> max t a \<le> fold max ts (max t a)"
    by (intro Cons.IH) simp_all
  then show ?case
    by simp
qed

lemma new_Date_range: "new_Date h s = Some t \<Longrightarrow> \<bar>t\<bar> \<le> 8640000000000000"
  by (auto simp: new_Date_def TimeClip_def split: option.splits if_splits)

lemma daysDiff_ge_1:
  assumes valid: "\<forall>e\<in>set E. new_Date h (reported_at e) \<noteq> None" and ne: "E \<noteq> []"
    and lim: "length E \<le> maxArgs"
  shows "\<exists>d. daysDiff h maxArgs E = Inr (Fin d) \<and> 1 \<le> d"
proof -
  define ts where "ts = map (\<lambda>e. the (new_Date h (reported_at e))) E"
  have dates: "map (\<lambda>e. getTime (new_Date h (reported_at e))) E = map (\<lambda>t. Fin (of_int t)) ts"
    using valid by (auto simp: ts_def getTime_def)
  have rng: "\<forall>t\<in>set ts. - 8640000000000000 \<le> t \<and> t \<le> 8640000000000000"
  proof
    fix t assume "t \<in> set ts"
    then obtain e where "e \<in> set E" "t = the (new_Date h (reported_at e))"
      by (auto simp: ts_def)
    with valid have "new_Date h (reported_at e) = Some t"
      by auto
    from new_Date_range [OF this] show "- 8640000000000000 \<le> t \<and> t \<le> 8640000000000000"
      by linarith
  qed
  from ne obtain t0 ts' where ts: "ts = t0 # ts'"
    by (cases ts) (auto simp: ts_def)
  define m where "m = fold min ts' t0"
  define M where "M = fold max ts' t0"
  have mn: "Math_min (map (\<lambda>t. Fin (of_int t)) ts) = Fin (of_int m)"
    and mx: "Math_max (map (\<lambda>t. Fin (of_int t)) ts) = Fin (of_int M)"
    by (simp_all add: Math_min_def Math_max_def ts fold_dmin_Fin fold_dmax_Fin m_def M_def)
  have "- 8640000000000000 \<le> m \<and> m \<le> t0" "M \<le> 8640000000000000 \<and> t0 \<le> M"
    unfolding m_def M_def using rng ts
    by (intro fold_min_range fold_max_range; simp)+
  then have span: "0 \<le> M - m" "M - m \<le> 17280000000000000"
    by linarith+
  define x :: rat where "x = of_int M - of_int m"
  have x: "0 \<le> x" "x \<le> 17280000000000000"
    using span unfolding x_def by (metis of_int_0_le_iff of_int_diff, metis of_int_le_iff of_int_diff of_int_numeral)
  have big: "(17280000000000000::rat) * 2 + 1 < 2 ^ 1023"
    by simp
  have "\<bar>x\<bar> < 2 ^ 1023"
    using x big by linarith
  from fl_error [OF this] obtain y where y: "fl x = Fin y" "0 \<le> y"
    "\<bar>y - x\<bar> \<le> \<bar>x\<bar> / 2 ^ 53 + 1 / 2 ^ 1075"
    using x(1) by auto
  have "\<bar>x\<bar> / 2 ^ 53 \<le> \<bar>x\<bar>"
    by (simp add: field_simps)
  moreover have "(1::rat) / 2 ^ 1075 \<le> 1"
    by simp
  ultimately have "y \<le> x * 2 + 1"
    using y(3) x(1) by linarith
  then have "\<bar>y / 86400000\<bar> < 2 ^ 1023"
    using y(2) x big by (simp add: field_simps)
  from fl_error [OF this] obtain z where z: "fl (y / 86400000) = Fin z" "0 \<le> z"
    using y(2) by auto
  have len: "\<not> maxArgs < length ts"
    using lim by (simp add: ts_def)
  have "daysDiff h maxArgs E =
      Inr (Math_max [Fin 1, Math_ceil (fdiv (fsub (Fin (of_int M)) (Fin (of_int m))) (Fin 86400000))])"
    by (simp add: daysDiff_def spread_call_def dates len mn mx)
  also have "fdiv (fsub (Fin (of_int M)) (Fin (of_int m))) (Fin 86400000) = Fin z"
    using y(1) z(1) by (simp add: x_def)
  also have "Math_max [Fin 1, Math_ceil (Fin z)] = Fin (max (of_int \<lceil>z\<rceil>) 1)"
    by (simp add: Math_max_def)
  finally show ?thesis
    by simp
qed

lemma daysDiff_too_many:
  "maxArgs < length E \<Longrightarrow> daysDiff h maxArgs E = Inl (RangeError ''Maximum call stack size exceeded'')"
  by (simp add: daysDiff_def spread_call_def)

lemma calculateStatistics_too_many:
  assumes "maxArgs < length E"
  shows "calculateStatistics h maxArgs clock E = Inl (RangeError ''Maximum call stack size exceeded'')"
proof -
  have "E \<noteq> []"
    using assms by auto
  then show ?thesis
    by (simp add: calculateStatistics_def daysDiff_too_many [OF assms])
qed

text \<open>
  C6. On the empty list every statistic is the number \<open>0\<close>. On a list whose dates all
  parse, with no more events than a call can take arguments, the function returns; then
  \<open>total\<close> is the number of events, none of \<open>avgPerDay\<close>, \<open>trend\<close> and \<open>urgentPercent\<close> is
  NaN, and when the list is not empty the divisor \<open>daysDiff\<close> of \<open>avgPerDay\<close> is a finite
  number that is at least \<open>1\<close>. With more events than that, \<open>Math.min(...dates)\<close> throws
  its RangeError and nothing is returned: the one way the function fails on such a list,
  and it is neither NaN nor an error of a division.
\<close>

theorem calculateStatistics_no_NaN:
  "calculateStatistics h maxArgs clock [] =
     Inr \<lparr>total = 0, avgPerDay = SNum (Fin 0), trend = SNum (Fin 0), urgentPercent = SNum (Fin 0)\<rparr>
   \<and> ((\<forall>e\<in>set E. new_Date h (reported_at e) \<noteq> None) \<longrightarrow>
        (length E \<le> maxArgs \<longrightarrow>
           (\<exists>s. calculateStatistics h maxArgs clock E = Inr s
                \<and> total s = length E
                \<and> \<not> stat_is_NaN (avgPerDay s)
                \<and> \<not> stat_is_NaN (trend s)
                \<and> \<not> stat_is_NaN (urgentPercent s)
                \<and> (E \<noteq> [] \<longrightarrow>
                     (\<exists>d. daysDiff h maxArgs E = Inr (Fin d) \<and> 1 \<le> d
                          \<and> avgPerDay s = SStr (toFixed1 (fdiv (Fin (of_nat (length E))) (Fin d)))))))
        \<and> (maxArgs < length E \<longrightarrow>
             calculateStatistics h maxArgs clock E
               = Inl (RangeError ''Maximum call stack size exceeded'')))"
proof (intro conjI impI)
  show "calculateStatistics h maxArgs clock [] =
     Inr \<lparr>total = 0, avgPerDay = SNum (Fin 0), trend = SNum (Fin 0), urgentPercent = SNum (Fin 0)\<rparr>"
    by (simp add: calculateStatistics_def)
next
  assume valid: "\<forall>e\<in>set E. new_Date h (reported_at e) \<noteq> None" and lim: "length E \<le> maxArgs"
  show "\<exists>s. calculateStatistics h maxArgs clock E = Inr s
                \<and> total s = length E
                \<and> \<not> stat_is_NaN (avgPerDay s)
                \<and> \<not> stat_is_NaN (trend s)
                \<and> \<not> stat_is_NaN (urgentPercent s)
                \<and> (E \<noteq> [] \<longrightarrow>
                     (\<exists>d. daysDiff h maxArgs E = Inr (Fin d) \<and> 1 \<le> d
                          \<and> avgPerDay s = SStr (toFixed1 (fdiv (Fin (of_nat (length E))) (Fin d)))))"
  proof (cases "E = []")
    case True
    then show ?thesis
      by (simp add: calculateStatistics_def stat_is_NaN_def)
  next
    case False
    from daysDiff_ge_1 [OF valid False lim] obtain d where d: "daysDiff h maxArgs E = Inr (Fin d)" "1 \<le> d"
      by blast
    have a: "fdiv (Fin (of_nat (length E))) (Fin d) \<noteq> NaN"
      using d(2) by (simp add: fl_not_NaN)
    have t: "fmul (fdiv (fsub (Fin (of_nat l)) (Fin (of_nat p))) (Fin (of_nat p))) (Fin 100) \<noteq> NaN"
      if "0 < p" for l p :: nat
      using that by (intro fmul_not_NaN fdiv_not_NaN) (simp_all add: fl_not_NaN)
    have u: "fmul (fdiv (Fin (of_nat u)) (Fin (of_nat (length E)))) (Fin 100) \<noteq> NaN" for u :: nat
      using False by (intro fmul_not_NaN fdiv_not_NaN) simp_all
    show ?thesis
      using False d a t u
      by (simp add: calculateStatistics_def Let_def stat_is_NaN_def toFixed1_not_NaN)
  qed
next
  assume "maxArgs < length E"
  then show "calculateStatistics h maxArgs clock E
               = Inl (RangeError ''Maximum call stack size exceeded'')"
    by (rule calculateStatistics_too_many)
qed

text \<open>
  The scenario of the spec in an engine whose calls take up to 125000 arguments, and the
  same engine given 130000 events.
\<close>

lemma daysDiff_within: "length E \<le> m \<Longrightarrow> daysDiff h m E = daysDiff h (length E) E"
  by (simp add: daysDiff_def spread_call_def)

lemma calculateStatistics_within:
  "length E \<le> m \<Longrightarrow> calculateStatistics h m clock E = calculateStatistics h (length E) clock E"
  by (simp add: calculateStatistics_def daysDiff_within [of E m])

lemma scenario_statistics_evaluated:
  "calculateStatistics scenario_host (length scenario_events) (\<lambda>k. 1710504000000 + int k)
     scenario_events =
     Inr \<lparr>total = 2, avgPerDay = SStr (Digits1 False 20), trend = SStr (Digits1 False 0),
          urgentPercent = SStr (Digits1 False 500)\<rparr>"
  "calculateStatistics scenario_host (length [scenario_event ''2024-03-15T10:00'' RED []])
     (\<lambda>k. 1710504000000 + int k) [scenario_event ''2024-03-15T10:00'' RED []] =
     Inr \<lparr>total = 1, avgPerDay = SStr (Digits1 False 10), trend = SStr (Digits1 False 0),
          urgentPercent = SStr (Digits1 False 1000)\<rparr>"
  "daysDiff scenario_host (length scenario_events) scenario_events = Inr (Fin 1)"
  "numstr_text False 20 = ''2.0''" "numstr_text False 500 = ''50.0''"
  by code_simp+

lemma scenario_statistics:
  "calculateStatistics scenario_host 125000 (\<lambda>k. 1710504000000 + int k) scenario_events =
     Inr \<lparr>total = 2, avgPerDay = SStr (Digits1 False 20), trend = SStr (Digits1 False 0),
          urgentPercent = SStr (Digits1 False 500)\<rparr>"
  "calculateStatistics scenario_host 125000 (\<lambda>k. 1710504000000 + int k)
     [scenario_event ''2024-03-15T10:00'' RED []] =
     Inr \<lparr>total = 1, avgPerDay = SStr (Digits1 False 10), trend = SStr (Digits1 False 0),
          urgentPercent = SStr (Digits1 False 1000)\<rparr>"
  "daysDiff scenario_host 125000 scenario_events = Inr (Fin 1)"
proof -
  have "length scenario_events \<le> 125000"
    "length [scenario_event ''2024-03-15T10:00'' RED []] \<le> 125000"
    by (simp_all add: scenario_events_def)
  then show
    "calculateStatistics scenario_host 125000 (\<lambda>k. 1710504000000 + int k) scenario_events =
     Inr \<lparr>total = 2, avgPerDay = SStr (Digits1 False 20), trend = SStr (Digits1 False 0),
          urgentPercent = SStr (Digits1 False 500)\<rparr>"
    "calculateStatistics scenario_host 125000 (\<lambda>k. 1710504000000 + int k)
     [scenario_event ''2024-03-15T10:00'' RED []] =
     Inr \<lparr>total = 1, avgPerDay = SStr (Digits1 False 10), trend = SStr (Digits1 False 0),
          urgentPercent = SStr (Digits1 False 1000)\<rparr>"
    "daysDiff scenario_host 125000 scenario_events = Inr (Fin 1)"
    by (simp_all only: calculateStatistics_within daysDiff_within scenario_statistics_evaluated)
qed

theorem calculateStatistics_no_NaN_witness:
  "map reported_at scenario_events = [''2024-03-15T10:00'', ''2024-03-15T14:00'']
   \<and> new_Date scenario_host ''2024-03-15T10:00'' = Some 1710489600000
   \<and> new_Date scenario_host ''2024-03-15T14:00'' = Some 1710504000000
   \<and> calculateStatistics scenario_host 125000 (\<lambda>k. 1710504000000 + int k) scenario_events =
       Inr \<lparr>total = 2, avgPerDay = SStr (Digits1 False 20), trend = SStr (Digits1 False 0),
            urgentPercent = SStr (Digits1 False 500)\<rparr>
   \<and> \<not> stat_is_NaN (SStr (Digits1 False 20))
   \<and> \<not> stat_is_NaN (SStr (Digits1 False 0))
   \<and> \<not> stat_is_NaN (SStr (Digits1 False 500))
   \<and> daysDiff scenario_host 125000 scenario_events = Inr (Fin 1)
   \<and> calculateStatistics scenario_host 125000 (\<lambda>k. 1710504000000 + int k)
         (replicate 130000 (scenario_event ''2024-03-15T10:00'' RED []))
       = Inl (RangeError ''Maximum call stack size exceeded'')"
proof -
  let ?c = "\<lambda>k. 1710504000000 + int k"
  let ?e = "scenario_event ''2024-03-15T10:00'' RED []"
  have p: "\<forall>e\<in>set scenario_events. new_Date scenario_host (reported_at e) \<noteq> None"
    by (simp add: scenario_events_def scenario_event_def scenario_dates)
  have q: "\<forall>e\<in>set (replicate 130000 ?e). new_Date scenario_host (reported_at e) \<noteq> None"
    by (simp add: scenario_event_def scenario_dates)
  have len: "length scenario_events \<le> 125000"
    by (simp add: scenario_events_def)
  have r: "map reported_at scenario_events = [''2024-03-15T10:00'', ''2024-03-15T14:00'']"
    by (simp add: scenario_events_def scenario_event_def)
  have big: "calculateStatistics scenario_host 125000 ?c (replicate 130000 ?e)
       = Inl (RangeError ''Maximum call stack size exceeded'')"
    using calculateStatistics_no_NaN [of scenario_host 125000 ?c "replicate 130000 ?e"] q
    by simp
  from calculateStatistics_no_NaN [of scenario_host 125000 ?c scenario_events] p len
  obtain s where s: "calculateStatistics scenario_host 125000 ?c scenario_events = Inr s"
    "\<not> stat_is_NaN (avgPerDay s)" "\<not> stat_is_NaN (trend s)" "\<not> stat_is_NaN (urgentPercent s)"
    by blast
  from s(1) have "s = \<lparr>total = 2, avgPerDay = SStr (Digits1 False 20), trend = SStr (Digits1 False 0),
            urgentPercent = SStr (Digits1 False 500)\<rparr>"
    by (simp add: scenario_statistics(1))
  with s have "\<not> stat_is_NaN (SStr (Digits1 False 20))" "\<not> stat_is_NaN (SStr (Digits1 False 0))"
    "\<not> stat_is_NaN (SStr (Digits1 False 500))"
    by simp_all
  then show ?thesis
    using r big scenario_dates scenario_statistics(1,3) by simp
qed


section \<open>Theorems: percentages of processEventsByAlertCode\<close>

lemma percent_tenths:
  assumes "n \<le> T" and "0 < T"
  shows "\<exists>p. toFixed1 (fmul (fdiv (Fin (of_nat n)) (Fin (of_nat T))) (Fin 100)) = Digits1 False p
             \<and> \<bar>of_nat p - 1000 * of_nat n / of_nat T\<bar> \<le> (9 / 16 :: rat)"
proof -
  define q :: rat where "q = of_nat n / of_nat T"
  define u :: rat where "u = 1 / 2 ^ 53"
  have q: "0 \<le> q" "q \<le> 1"
    using assms by (simp_all add: q_def)
  have u: "0 < u" "4020 * u \<le> 1 / 16"
    by (simp_all add: u_def)
  have t: "(1::rat) / 2 ^ 1075 \<le> u"
    unfolding u_def by (intro divide_left_mono power_increasing) simp_all
  have "\<bar>q\<bar> < 2 ^ 1023"
  proof -
    have "(1::rat) < 2 ^ 1023"
      by (rule one_less_power) simp_all
    then show ?thesis
      using q by linarith
  qed
  from fl_error [OF this] obtain q' where q': "fl q = Fin q'" "0 \<le> q'"
    "\<bar>q' - q\<bar> \<le> \<bar>q\<bar> / 2 ^ 53 + 1 / 2 ^ 1075"
    using q(1) by auto
  have "\<bar>q\<bar> / 2 ^ 53 \<le> u"
    using q by (simp add: u_def divide_right_mono)
  with q'(3) t have e1: "\<bar>q' - q\<bar> \<le> 2 * u"
    by linarith
  have q'2: "q' \<le> 2"
    using e1 q u by linarith
  have "\<bar>q' * 100\<bar> < 2 ^ 1023"
  proof -
    have "(2::rat) ^ 8 \<le> 2 ^ 1023"
      by (rule power_increasing) simp_all
    then show ?thesis
      using q'(2) q'2 by simp
  qed
  from fl_error [OF this] obtain p where p: "fl (q' * 100) = Fin p" "0 \<le> p"
    "\<bar>p - q' * 100\<bar> \<le> \<bar>q' * 100\<bar> / 2 ^ 53 + 1 / 2 ^ 1075"
    using q'(2) by auto
  have "\<bar>q' * 100\<bar> / 2 ^ 53 \<le> 200 * u"
    using q'(2) q'2 by (simp add: u_def field_simps)
  with p(3) t have e2: "\<bar>p - q' * 100\<bar> \<le> 201 * u"
    by linarith
  have p_small: "p \<le> 201"
    using e2 q'2 u by linarith
  have "\<not> 10 ^ 21 \<le> \<bar>p\<bar>"
    using p(2) p_small by simp
  then have tf: "toFixed1 (Fin p) = Digits1 False (nat (round (10 * p)))"
    using p(2) by simp
  have "fdiv (Fin (of_nat n)) (Fin (of_nat T)) = Fin q'"
    using assms(2) q'(1) by (simp add: q_def)
  then have eq: "toFixed1 (fmul (fdiv (Fin (of_nat n)) (Fin (of_nat T))) (Fin 100))
      = Digits1 False (nat (round (10 * p)))"
    using p(1) tf by simp
  have r0: "0 \<le> round (10 * p)"
    using p(2) by (simp add: round_def)
  have "\<bar>of_int (round (10 * p)) - 10 * p\<bar> \<le> 1 / 2"
    by (rule of_int_round_abs_le)
  then have "\<bar>of_int (round (10 * p)) - 1000 * q\<bar> \<le> 1 / 2 + 4020 * u"
    using e1 e2 by linarith
  then have "\<bar>of_int (round (10 * p)) - 1000 * q\<bar> \<le> 9 / 16"
    using u(2) by linarith
  moreover have "(of_nat (nat (round (10 * p))) :: rat) = of_int (round (10 * p))"
    using r0 by (metis of_nat_nat)
  ultimately have "\<bar>of_nat (nat (round (10 * p))) - 1000 * of_nat n / of_nat T\<bar> \<le> (9 / 16 :: rat)"
    by (simp add: q_def)
  with eq show ?thesis
    by blast
qed

text \<open>
  C4. On the empty list the four percentages are the string \<open>0.0\<close> each (the divisor is
  \<open>1\<close>). On a non-empty list the four percentages are decimal strings with one digit
  after the point, and their sum, read in tenths, differs from \<open>1000\<close> by at most \<open>2\<close>: the
  percentages sum to \<open>100\<close> up to \<open>0.2\<close>, the rounding of four values to one decimal.
\<close>

theorem alert_percentages_sum:
  "(E = [] \<longrightarrow> map percentage (processEventsByAlertCode E) = replicate 4 (Digits1 False 0))
   \<and> (E \<noteq> [] \<longrightarrow>
        (\<exists>ps. map percentage (processEventsByAlertCode E) = map (Digits1 False) ps
              \<and> length ps = 4 \<and> \<bar>int (sum_list ps) - 1000\<bar> \<le> 2))"
proof (intro conjI impI)
  assume "E = []"
  moreover have "toFixed1 (fmul (fdiv (Fin 0) (Fin 1)) (Fin 100)) = Digits1 False 0"
    by (simp add: fl_def)
  ultimately show "map percentage (processEventsByAlertCode E) = replicate 4 (Digits1 False 0)"
    unfolding processEventsByAlertCode_rows
    by (simp add: numeral_eq_Suc)
next
  assume ne: "E \<noteq> []"
  define T where "T = length E"
  define cnt where "cnt c = length (filter (\<lambda>e. alert_code e = c) E)" for c
  have T: "0 < T"
    using ne by (simp add: T_def)
  have le: "cnt c \<le> T" for c
    by (simp add: cnt_def T_def)
  have total: "cnt GREEN + cnt YELLOW + cnt ORANGE + cnt RED = T"
    using sum_alert_buckets [of E] by (simp add: cnt_def T_def)
  let ?pc = "\<lambda>c. toFixed1 (fmul (fdiv (Fin (of_nat (cnt c))) (Fin (of_nat T))) (Fin 100))"
  from percent_tenths [OF le T] obtain pg py po pr where
    g: "?pc GREEN = Digits1 False pg" "\<bar>of_nat pg - 1000 * of_nat (cnt GREEN) / of_nat T\<bar> \<le> (9 / 16 :: rat)" and
    y: "?pc YELLOW = Digits1 False py" "\<bar>of_nat py - 1000 * of_nat (cnt YELLOW) / of_nat T\<bar> \<le> (9 / 16 :: rat)" and
    o: "?pc ORANGE = Digits1 False po" "\<bar>of_nat po - 1000 * of_nat (cnt ORANGE) / of_nat T\<bar> \<le> (9 / 16 :: rat)" and
    r: "?pc RED = Digits1 False pr" "\<bar>of_nat pr - 1000 * of_nat (cnt RED) / of_nat T\<bar> \<le> (9 / 16 :: rat)"
    by metis
  have "map percentage (processEventsByAlertCode E) = map ?pc [GREEN, YELLOW, ORANGE, RED]"
    unfolding processEventsByAlertCode_rows using ne
    by (simp only: map_map comp_def alert_row.simps cnt_def T_def length_0_conv if_False)
  then have rows: "map percentage (processEventsByAlertCode E) = map (Digits1 False) [pg, py, po, pr]"
    using g(1) y(1) o(1) r(1) by simp
  have "(1000 * of_nat (cnt GREEN) / of_nat T + 1000 * of_nat (cnt YELLOW) / of_nat T
      + 1000 * of_nat (cnt ORANGE) / of_nat T + 1000 * of_nat (cnt RED) / of_nat T :: rat)
      = 1000 * of_nat (cnt GREEN + cnt YELLOW + cnt ORANGE + cnt RED) / of_nat T"
    by (simp add: add_divide_distrib distrib_left)
  also have "\<dots> = 1000"
    using T by (simp add: total)
  finally have "\<bar>(of_nat pg + of_nat py + of_nat po + of_nat pr :: rat) - 1000\<bar> \<le> 9 / 4"
    using g(2) y(2) o(2) r(2) by linarith
  then have "\<bar>(of_int (int (pg + py + po + pr) - 1000) :: rat)\<bar> \<le> 9 / 4"
    by simp
  then have "\<bar>int (pg + py + po + pr) - 1000\<bar> \<le> 2"
  proof -
    assume a: "\<bar>(of_int (int (pg + py + po + pr) - 1000) :: rat)\<bar> \<le> 9 / 4"
    have "\<bar>(of_int (int (pg + py + po + pr) - 1000) :: rat)\<bar> < of_int 3"
      using a by linarith
    then have "\<bar>int (pg + py + po + pr) - 1000\<bar> < 3"
      by (metis of_int_abs of_int_less_iff)
    then show ?thesis
      by linarith
  qed
  then show "\<exists>ps. map percentage (processEventsByAlertCode E) = map (Digits1 False) ps
              \<and> length ps = 4 \<and> \<bar>int (sum_list ps) - 1000\<bar> \<le> 2"
    using rows by (intro exI [of _ "[pg, py, po, pr]"]) (simp add: add.assoc)
qed


lemma thirds_percentages:
  "map percentage (processEventsByAlertCode
     [scenario_event ''2024-03-15T10:00'' GREEN [], scenario_event ''2024-03-15T10:00'' YELLOW [],
      scenario_event ''2024-03-15T10:00'' ORANGE []])
   = map (Digits1 False) [333, 333, 333, 0]"
  "numstr_text False 333 = ''33.3''"
  by code_simp+

theorem alert_percentages_sum_witness:
  "map percentage (processEventsByAlertCode []) = replicate 4 (Digits1 False 0)
   \<and> map percentage (processEventsByAlertCode
     [scenario_event ''2024-03-15T10:00'' GREEN [], scenario_event ''2024-03-15T10:00'' YELLOW [],
      scenario_event ''2024-03-15T10:00'' ORANGE []])
     = map (Digits1 False) [333, 333, 333, 0]
   \<and> \<bar>int (sum_list [333, 333, 333, 0]) - 1000\<bar> \<le> 2"
proof -
  let ?E = "[scenario_event ''2024-03-15T10:00'' GREEN [], scenario_event ''2024-03-15T10:00'' YELLOW [],
      scenario_event ''2024-03-15T10:00'' ORANGE []]"
  have "?E \<noteq> []"
    by simp
  with alert_percentages_sum [of ?E] obtain ps where
    ps: "map percentage (processEventsByAlertCode ?E) = map (Digits1 False) ps"
      "\<bar>int (sum_list ps) - 1000\<bar> \<le> 2"
    by blast
  have "inj (Digits1 False)"
    by (simp add: inj_def)
  with ps(1) have "ps = [333, 333, 333, 0]"
    unfolding thirds_percentages(1) by (metis inj_map_eq_map)
  with ps(2) alert_percentages_sum [of "[]"] show ?thesis
    by (simp add: thirds_percentages(1))
qed


section \<open>Properties of the calendar\<close>








section \<open>Properties of fixed-width decimal strings and of their collation\<close>










lemma localeCompare_same [simp]: "localeCompare a a = 0"
  by (induction a) simp_all




section \<open>Properties of the ISO date keys\<close>











section \<open>Properties of the sort\<close>



section \<open>Properties of processEventsTrend\<close>





section \<open>Theorems: processEventsTrend\<close>








end
